theory Spec2Isabelle
  imports Complex_Main
begin

section \<open>Python values and exceptions\<close>

text \<open>
  The program is \<^verbatim>\<open>betsmart_aiv2.py\<close>. Every exception a line of the source can raise is
  a value of \<open>error\<close>; a function that can raise returns \<open>error + 'a\<close>, with \<open>Inl\<close> for the
  exception that leaves the function.
\<close>

datatype error =
    AttributeError
  | TypeError
  | KeyError
  | ValueError
  | OverflowError
  | TimestampOutOfRange
  | RequestException
  | JSONDecodeError

definition ebind :: "error + 'a \<Rightarrow> ('a \<Rightarrow> error + 'b) \<Rightarrow> error + 'b" where
  "ebind m f = (case m of Inl e \<Rightarrow> Inl e | Inr x \<Rightarrow> f x)"

section \<open>Naive datetimes\<close>

text \<open>
  A naive \<^verbatim>\<open>datetime\<close> is its seven fields. The constructor \<^verbatim>\<open>datetime(y, m, d, H, M, S)\<close>
  checks every field and raises \<^verbatim>\<open>ValueError\<close> on one out of range; in particular the
  hour must lie in \<open>0..23\<close>.
\<close>

record datetime =
  year :: int
  month :: int
  day :: int
  hour :: int
  minute :: int
  second :: int
  microsecond :: int

definition is_leap :: "int \<Rightarrow> bool" where
  "is_leap y = (y mod 4 = 0 \<and> (y mod 100 \<noteq> 0 \<or> y mod 400 = 0))"

definition days_in_month :: "int \<Rightarrow> int \<Rightarrow> int" where
  "days_in_month y m =
     (if m = 2 then (if is_leap y then 29 else 28)
      else if m = 4 \<or> m = 6 \<or> m = 9 \<or> m = 11 then 30 else 31)"

definition days_before_year :: "int \<Rightarrow> int" where
  "days_before_year y =
     (let p = y - 1 in p * 365 + p div 4 - p div 100 + p div 400)"

definition days_before_month :: "int \<Rightarrow> int \<Rightarrow> int" where
  "days_before_month y m =
     (if m = 1 then 0 else if m = 2 then 31 else
        (if m = 3 then 59 else if m = 4 then 90 else if m = 5 then 120
         else if m = 6 then 151 else if m = 7 then 181 else if m = 8 then 212
         else if m = 9 then 243 else if m = 10 then 273 else if m = 11 then 304
         else 334) + (if is_leap y then 1 else 0))"

definition ymd2ord :: "int \<Rightarrow> int \<Rightarrow> int \<Rightarrow> int" where
  "ymd2ord y m d = days_before_year y + days_before_month y m + d"

definition valid_date :: "int \<Rightarrow> int \<Rightarrow> int \<Rightarrow> bool" where
  "valid_date y m d =
     (1 \<le> y \<and> y \<le> 9999 \<and> 1 \<le> m \<and> m \<le> 12 \<and> 1 \<le> d \<and> d \<le> days_in_month y m)"

definition valid_time :: "int \<Rightarrow> int \<Rightarrow> int \<Rightarrow> int \<Rightarrow> bool" where
  "valid_time h mi s us =
     (0 \<le> h \<and> h \<le> 23 \<and> 0 \<le> mi \<and> mi \<le> 59 \<and> 0 \<le> s \<and> s \<le> 59 \<and> 0 \<le> us \<and> us \<le> 999999)"

definition valid_datetime :: "datetime \<Rightarrow> bool" where
  "valid_datetime t =
     (valid_date (year t) (month t) (day t) \<and>
      valid_time (hour t) (minute t) (second t) (microsecond t))"

text \<open>The constructor call \<^verbatim>\<open>datetime(y, m, d, H, M, S)\<close> (microsecond defaults to 0).\<close>

definition mk_datetime :: "int \<Rightarrow> int \<Rightarrow> int \<Rightarrow> int \<Rightarrow> int \<Rightarrow> int \<Rightarrow> error + datetime" where
  "mk_datetime y m d h mi s =
     (if valid_date y m d \<and> valid_time h mi s 0
      then Inr \<lparr>year = y, month = m, day = d, hour = h, minute = mi, second = s,
                microsecond = 0\<rparr>
      else Inl ValueError)"

text \<open>\<^verbatim>\<open>a < b\<close> on naive datetimes compares the seven fields lexicographically.\<close>

definition dt_less :: "datetime \<Rightarrow> datetime \<Rightarrow> bool" where
  "dt_less a b =
     (year a < year b \<or> (year a = year b \<and>
     (month a < month b \<or> (month a = month b \<and>
     (day a < day b \<or> (day a = day b \<and>
     (hour a < hour b \<or> (hour a = hour b \<and>
     (minute a < minute b \<or> (minute a = minute b \<and>
     (second a < second b \<or> (second a = second b \<and>
      microsecond a < microsecond b))))))))))))"

text \<open>
  \<^verbatim>\<open>t + timedelta(hours=8)\<close>: the wall clock moves on by eight hours and, past midnight,
  the date by one day; a date after 9999-12-31 raises \<^verbatim>\<open>OverflowError\<close>.
\<close>

definition add_8_hours :: "datetime \<Rightarrow> error + datetime" where
  "add_8_hours t =
     (if hour t + 8 < 24 then Inr (t\<lparr>hour := hour t + 8\<rparr>)
      else if day t < days_in_month (year t) (month t)
        then Inr (t\<lparr>day := day t + 1, hour := hour t + 8 - 24\<rparr>)
      else if month t < 12
        then Inr (t\<lparr>month := month t + 1, day := 1, hour := hour t + 8 - 24\<rparr>)
      else if year t < 9999
        then Inr (t\<lparr>year := year t + 1, month := 1, day := 1, hour := hour t + 8 - 24\<rparr>)
      else Inl OverflowError)"

text \<open>
  \<^verbatim>\<open>(a - b).total_seconds()\<close>: the difference of two naive datetimes is taken through
  their day ordinals and seconds of the day, and read in seconds. Python returns the
  nearest float; here the value is the exact rational, which has the same sign.
\<close>

definition to_microseconds :: "datetime \<Rightarrow> int" where
  "to_microseconds t =
     ((ymd2ord (year t) (month t) (day t) * 86400
        + (second t + minute t * 60 + hour t * 3600)) * 1000000) + microsecond t"

definition total_seconds_between :: "datetime \<Rightarrow> datetime \<Rightarrow> rat" where
  "total_seconds_between a b = of_int (to_microseconds a - to_microseconds b) / 1000000"

section \<open>The quota reset estimator\<close>

text \<open>
  \<^verbatim>\<open>
  def get_api_reset_time():
      now = datetime.utcnow()
      reset_hour = (now.hour // 8 + 1) * 8
      reset_time = datetime(now.year, now.month, now.day, reset_hour, 0, 0)
      if reset_time < now:
          reset_time += timedelta(hours=8)
      return reset_time
  \<close>
  The clock reading \<^verbatim>\<open>datetime.utcnow()\<close> is the argument \<open>now\<close>.
\<close>

definition get_api_reset_time :: "datetime \<Rightarrow> error + datetime" where
  "get_api_reset_time now =
     (let reset_hour = (hour now div 8 + 1) * 8 in
      ebind (mk_datetime (year now) (month now) (day now) reset_hour 0 0)
        (\<lambda>reset_time.
           if dt_less reset_time now then add_8_hours reset_time else Inr reset_time))"

text \<open>
  \<^verbatim>\<open>
  def get_remaining_time():
      return (get_api_reset_time() - datetime.utcnow()).total_seconds()
  \<close>
  The function reads the clock a second time, after \<^verbatim>\<open>get_api_reset_time\<close> has returned.
  That function is cached for 600 seconds (\<^verbatim>\<open>@st.cache_data(ttl=600)\<close>), so its own clock
  reading \<open>reset_now\<close> can be up to ten minutes older than the reading \<open>now\<close> taken here.
\<close>

definition get_remaining_time :: "datetime \<Rightarrow> datetime \<Rightarrow> error + rat" where
  "get_remaining_time reset_now now =
     ebind (get_api_reset_time reset_now)
       (\<lambda>reset_time. Inr (total_seconds_between reset_time now))"

section \<open>JSON payloads\<close>

text \<open>
  The odds payload is what \<^verbatim>\<open>response.json()\<close> parsed: \<^verbatim>\<open>None\<close>, booleans, integers,
  floats, strings, lists and dicts. A dict is the list of its items in insertion order
  (keys distinct); a string is the list of its bytes; a float is the rational it denotes.
\<close>

datatype json =
    JNull
  | JBool bool
  | JInt int
  | JFloat rat
  | JStr string
  | JArr "json list"
  | JObj "(string \<times> json) list"

text \<open>\<^verbatim>\<open>d.get(k, default)\<close>: only a dict has the method.\<close>

definition get :: "json \<Rightarrow> string \<Rightarrow> json \<Rightarrow> error + json" where
  "get d k dflt =
     (case d of
        JObj kvs \<Rightarrow> Inr (case map_of kvs k of None \<Rightarrow> dflt | Some v \<Rightarrow> v)
      | _ \<Rightarrow> Inl AttributeError)"

text \<open>\<^verbatim>\<open>d[k]\<close> with a string key: \<^verbatim>\<open>KeyError\<close> on a dict without the key.\<close>

definition getitem :: "json \<Rightarrow> string \<Rightarrow> error + json" where
  "getitem d k =
     (case d of
        JObj kvs \<Rightarrow> (case map_of kvs k of None \<Rightarrow> Inl KeyError | Some v \<Rightarrow> Inr v)
      | _ \<Rightarrow> Inl TypeError)"

text \<open>
  \<^verbatim>\<open>for x in v\<close>: a list yields its elements, a dict its keys, a string its characters;
  nothing else is iterable.
\<close>

definition iter :: "json \<Rightarrow> error + json list" where
  "iter v =
     (case v of
        JArr xs \<Rightarrow> Inr xs
      | JObj kvs \<Rightarrow> Inr (map (\<lambda>kv. JStr (fst kv)) kvs)
      | JStr s \<Rightarrow> Inr (map (\<lambda>c. JStr [c]) s)
      | _ \<Rightarrow> Inl TypeError)"

section \<open>Kick-off time\<close>

text \<open>
  \<^verbatim>\<open>datetime.fromtimestamp(timestamp).strftime("%H:%M")\<close>. The timestamp must be a number
  (a bool counts as one, a float is rounded half-even to microseconds); the wall clock is
  that of the host's local time zone, whose offset from UTC in seconds at an instant is
  the parameter \<open>tz\<close>. An instant that the host cannot render in the years 1..9999 raises
  (\<^verbatim>\<open>ValueError\<close>, \<^verbatim>\<open>OverflowError\<close> or \<^verbatim>\<open>OSError\<close>, by platform): \<open>TimestampOutOfRange\<close>.
\<close>

definition round_half_even :: "rat \<Rightarrow> int" where
  "round_half_even x =
     (let f = \<lfloor>x\<rfloor>; d = x - of_int f in
      if d < 1 / 2 then f else if 1 / 2 < d then f + 1
      else if even f then f else f + 1)"

definition timestamp_seconds :: "json \<Rightarrow> error + int" where
  "timestamp_seconds v =
     (case v of
        JInt n \<Rightarrow> Inr n
      | JBool b \<Rightarrow> Inr (if b then 1 else 0)
      | JFloat r \<Rightarrow> Inr (round_half_even (r * 1000000) div 1000000)
      | _ \<Rightarrow> Inl TypeError)"

definition digit_char :: "int \<Rightarrow> char" where
  "digit_char d =
     (if d = 0 then CHR ''0'' else if d = 1 then CHR ''1'' else if d = 2 then CHR ''2''
      else if d = 3 then CHR ''3'' else if d = 4 then CHR ''4'' else if d = 5 then CHR ''5''
      else if d = 6 then CHR ''6'' else if d = 7 then CHR ''7'' else if d = 8 then CHR ''8''
      else CHR ''9'')"

definition two_digits :: "int \<Rightarrow> string" where
  "two_digits n = [digit_char (n div 10), digit_char (n mod 10)]"

definition strftime_HM :: "int \<Rightarrow> int \<Rightarrow> string" where
  "strftime_HM h mi = two_digits h @ '':'' @ two_digits mi"

text \<open>
  A wall clock, in seconds since 1970-01-01 00:00:00, lies in the years 1..9999 when its
  day ordinal (day 1 is 0001-01-01, day 719163 is 1970-01-01) lies in 1..3652059.
\<close>

definition in_year_range :: "int \<Rightarrow> bool" where
  "in_year_range wall =
     (1 \<le> 719163 + wall div 86400 \<and> 719163 + wall div 86400 \<le> 3652059)"

text \<open>
  Besides the wall clock at the instant itself, \<^verbatim>\<open>fromtimestamp\<close> reads the wall clock one
  day before it, to detect a repeated hour, and when the offset shrank within that day
  (\<open>transition < 0\<close>) the wall clock at the instant moved back by the change; each of
  them must lie in the years 1..9999. So the instants of the first day of year 1 raise.
\<close>

definition fromtimestamp_HM :: "(int \<Rightarrow> int) \<Rightarrow> json \<Rightarrow> error + string" where
  "fromtimestamp_HM tz timestamp =
     ebind (timestamp_seconds timestamp)
       (\<lambda>t. let wall = t + tz t;
                probe = (t - 86400) + tz (t - 86400);
                transition = wall - probe - 86400
            in if in_year_range wall \<and> in_year_range probe \<and>
                  (0 \<le> transition \<or> in_year_range ((t + transition) + tz (t + transition)))
               then Inr (strftime_HM ((wall mod 86400) div 3600) ((wall mod 3600) div 60))
               else Inl TimestampOutOfRange)"

section \<open>The odds normalizer\<close>

text \<open>
  One output row: the eight columns of the dict appended to \<^verbatim>\<open>filtered_data\<close>
  (\<^verbatim>\<open>"Casa de Apuestas"\<close> and \<^verbatim>\<open>"Seleccion"\<close> spelt as identifiers). The data frame
  \<^verbatim>\<open>pd.DataFrame(filtered_data)\<close> is the list of its rows in order.
\<close>

record row =
  Liga :: json
  Local :: json
  Visitante :: json
  Hora :: string
  Casa_de_Apuestas :: json
  Mercado :: json
  Seleccion :: json
  Cuota :: json

text \<open>
  \<^verbatim>\<open>
  for value in bet.get("values", []):
      selection = value.get("value", "N/A")
      odd = value.get("odd", "N/A")
      if market_name in ["Match Winner", "Draw No Bet"] or selection == "Draw":
          filtered_data.append({..., "Casa de Apuestas": bookmaker["name"], ...})
  \<close>
\<close>

fun for_values ::
  "json \<Rightarrow> json \<Rightarrow> json \<Rightarrow> string \<Rightarrow> json \<Rightarrow> json \<Rightarrow> json list \<Rightarrow> row list
    \<Rightarrow> error + row list" where
  "for_values league home_team away_team match_time bookmaker market_name []
      filtered_data = Inr filtered_data"
| "for_values league home_team away_team match_time bookmaker market_name (val # rest)
      filtered_data =
     ebind (get val ''value'' (JStr ''N/A'')) (\<lambda>selection.
     ebind (get val ''odd'' (JStr ''N/A'')) (\<lambda>odd.
       if market_name \<in> set [JStr ''Match Winner'', JStr ''Draw No Bet'']
          \<or> selection = JStr ''Draw''
       then ebind (getitem bookmaker ''name'') (\<lambda>name.
              for_values league home_team away_team match_time bookmaker market_name rest
                (filtered_data @
                  [\<lparr>Liga = league, Local = home_team, Visitante = away_team,
                    Hora = match_time, Casa_de_Apuestas = name, Mercado = market_name,
                    Seleccion = selection, Cuota = odd\<rparr>]))
       else for_values league home_team away_team match_time bookmaker market_name rest
              filtered_data))"

text \<open>
  \<^verbatim>\<open>
  for bet in bookmaker.get("bets", []):
      market_name = bet.get("name", "Desconocido")
      for value in bet.get("values", []): ...
  \<close>
\<close>

fun for_bets ::
  "json \<Rightarrow> json \<Rightarrow> json \<Rightarrow> string \<Rightarrow> json \<Rightarrow> json list \<Rightarrow> row list
    \<Rightarrow> error + row list" where
  "for_bets league home_team away_team match_time bookmaker [] filtered_data =
     Inr filtered_data"
| "for_bets league home_team away_team match_time bookmaker (bet # rest) filtered_data =
     ebind (get bet ''name'' (JStr ''Desconocido'')) (\<lambda>market_name.
     ebind (get bet ''values'' (JArr [])) (\<lambda>vals.
     ebind (iter vals) (\<lambda>values.
     ebind (for_values league home_team away_team match_time bookmaker market_name values
              filtered_data)
       (for_bets league home_team away_team match_time bookmaker rest))))"

text \<open>
  \<^verbatim>\<open>
  for bookmaker in game.get("bookmakers", []):
      for bet in bookmaker.get("bets", []): ...
  \<close>
\<close>

fun for_bookmakers ::
  "json \<Rightarrow> json \<Rightarrow> json \<Rightarrow> string \<Rightarrow> json list \<Rightarrow> row list \<Rightarrow> error + row list" where
  "for_bookmakers league home_team away_team match_time [] filtered_data =
     Inr filtered_data"
| "for_bookmakers league home_team away_team match_time (bookmaker # rest) filtered_data =
     ebind (get bookmaker ''bets'' (JArr [])) (\<lambda>bs.
     ebind (iter bs) (\<lambda>bets.
     ebind (for_bets league home_team away_team match_time bookmaker bets filtered_data)
       (for_bookmakers league home_team away_team match_time rest)))"

text \<open>
  The body of the outer loop, for one \<^verbatim>\<open>game\<close>:
  \<^verbatim>\<open>
  fixture = game.get("fixture")
  league = game.get("league", {}).get("name", "Desconocida")
  home_team = game.get("teams", {}).get("home", {}).get("name", "Desconocido")
  away_team = game.get("teams", {}).get("away", {}).get("name", "Desconocido")
  timestamp = fixture.get("timestamp", 0)
  match_time = datetime.fromtimestamp(timestamp).strftime("%H:%M")
  for bookmaker in game.get("bookmakers", []): ...
  \<close>
\<close>

definition analyze_game :: "(int \<Rightarrow> int) \<Rightarrow> json \<Rightarrow> row list \<Rightarrow> error + row list" where
  "analyze_game tz game filtered_data =
     ebind (get game ''fixture'' JNull) (\<lambda>fixture.
     ebind (get game ''league'' (JObj [])) (\<lambda>lg.
     ebind (get lg ''name'' (JStr ''Desconocida'')) (\<lambda>league.
     ebind (get game ''teams'' (JObj [])) (\<lambda>teams.
     ebind (get teams ''home'' (JObj [])) (\<lambda>home.
     ebind (get home ''name'' (JStr ''Desconocido'')) (\<lambda>home_team.
     ebind (get game ''teams'' (JObj [])) (\<lambda>teams'.
     ebind (get teams' ''away'' (JObj [])) (\<lambda>away.
     ebind (get away ''name'' (JStr ''Desconocido'')) (\<lambda>away_team.
     ebind (get fixture ''timestamp'' (JInt 0)) (\<lambda>timestamp.
     ebind (fromtimestamp_HM tz timestamp) (\<lambda>match_time.
     ebind (get game ''bookmakers'' (JArr [])) (\<lambda>bms.
     ebind (iter bms) (\<lambda>bookmakers.
       for_bookmakers league home_team away_team match_time bookmakers
         filtered_data)))))))))))))"

fun for_games :: "(int \<Rightarrow> int) \<Rightarrow> json list \<Rightarrow> row list \<Rightarrow> error + row list" where
  "for_games tz [] filtered_data = Inr filtered_data"
| "for_games tz (game # rest) filtered_data =
     ebind (analyze_game tz game filtered_data) (for_games tz rest)"

text \<open>
  \<^verbatim>\<open>
  def analyze_odds(odds_data):
      filtered_data = []
      for game in odds_data: ...
      return pd.DataFrame(filtered_data)
  \<close>
\<close>

definition analyze_odds :: "(int \<Rightarrow> int) \<Rightarrow> json list \<Rightarrow> error + row list" where
  "analyze_odds tz odds_data = for_games tz odds_data []"

section \<open>The remote data fetcher\<close>

text \<open>
  \<^verbatim>\<open>
  def get_matches():
      today = datetime.utcnow().strftime("%Y-%m-%d")
      url = f"{BASE_URL}/fixtures?date={today}&timezone=UTC"
      headers = {"x-apisports-key": API_KEY}
      response = requests.get(url, headers=headers)
      if response.status_code == 200:
          data = response.json()
          return data.get("response", [])
      return []
  \<close>
  \<^verbatim>\<open>get_odds\<close> is the same function on the path \<^verbatim>\<open>/odds\<close>. The network is the parameter
  \<open>requests_get\<close>: a request either raises (\<^verbatim>\<open>requests.exceptions.RequestException\<close>: no
  connection, time-out) or returns a response with a status code and a body;
  \<^verbatim>\<open>response.json()\<close> raises \<^verbatim>\<open>JSONDecodeError\<close> on a body that is not JSON
  (\<open>json_body = None\<close>). Neither function catches an exception.
\<close>

record response =
  status_code :: int
  json_body :: "json option"

definition response_json :: "response \<Rightarrow> error + json" where
  "response_json r = (case json_body r of None \<Rightarrow> Inl JSONDecodeError | Some d \<Rightarrow> Inr d)"

definition BASE_URL :: string where
  "BASE_URL = ''https://v3.football.api-sports.io''"

definition strftime_Ymd :: "datetime \<Rightarrow> string" where
  "strftime_Ymd t =
     [digit_char (year t div 1000), digit_char (year t div 100 mod 10),
      digit_char (year t div 10 mod 10), digit_char (year t mod 10)]
     @ ''-'' @ two_digits (month t) @ ''-'' @ two_digits (day t)"

definition get_matches ::
  "string \<Rightarrow> (string \<Rightarrow> (string \<times> string) list \<Rightarrow> error + response) \<Rightarrow> datetime
    \<Rightarrow> error + json" where
  "get_matches API_KEY requests_get now =
     (let today = strftime_Ymd now;
          url = BASE_URL @ ''/fixtures?date='' @ today @ ''&timezone=UTC'';
          headers = [(''x-apisports-key'', API_KEY)]
      in ebind (requests_get url headers) (\<lambda>response.
           if status_code response = 200
           then ebind (response_json response) (\<lambda>data. get data ''response'' (JArr []))
           else Inr (JArr [])))"

definition get_odds ::
  "string \<Rightarrow> (string \<Rightarrow> (string \<times> string) list \<Rightarrow> error + response) \<Rightarrow> datetime
    \<Rightarrow> error + json" where
  "get_odds API_KEY requests_get now =
     (let today = strftime_Ymd now;
          url = BASE_URL @ ''/odds?date='' @ today @ ''&timezone=UTC'';
          headers = [(''x-apisports-key'', API_KEY)]
      in ebind (requests_get url headers) (\<lambda>response.
           if status_code response = 200
           then ebind (response_json response) (\<lambda>data. get data ''response'' (JArr []))
           else Inr (JArr [])))"

text \<open>The two addresses requested at the clock reading \<open>now\<close>.\<close>

definition fixtures_url :: "datetime \<Rightarrow> string" where
  "fixtures_url now = BASE_URL @ ''/fixtures?date='' @ strftime_Ymd now @ ''&timezone=UTC''"

definition odds_url :: "datetime \<Rightarrow> string" where
  "odds_url now = BASE_URL @ ''/odds?date='' @ strftime_Ymd now @ ''&timezone=UTC''"

section \<open>The specification's view of the normalizer\<close>

text \<open>
  The specification describes the output without the loops: the priced selections of the
  input in traversal order (fixture, then bookmaker, then market, then selection), the
  inclusion test on a market name and a selection label, and the row of a selection.
  These definitions follow its words; the theorems compare them with \<open>analyze_odds\<close>.
  \<open>get_or\<close> reads a field with its placeholder, \<open>elements\<close> the members of a block.
\<close>

definition get_or :: "json \<Rightarrow> string \<Rightarrow> json \<Rightarrow> json" where
  "get_or d k dflt =
     (case d of
        JObj kvs \<Rightarrow> (case map_of kvs k of None \<Rightarrow> dflt | Some v \<Rightarrow> v)
      | _ \<Rightarrow> dflt)"

definition elements :: "json \<Rightarrow> json list" where
  "elements v = (case iter v of Inl e \<Rightarrow> [] | Inr xs \<Rightarrow> xs)"

definition market_name_of :: "json \<Rightarrow> json" where
  "market_name_of bet = get_or bet ''name'' (JStr ''Desconocido'')"

definition selection_of :: "json \<Rightarrow> json" where
  "selection_of val = get_or val ''value'' (JStr ''N/A'')"

definition selections :: "json list \<Rightarrow> (json \<times> json \<times> json \<times> json) list" where
  "selections odds_data =
     concat (map (\<lambda>game.
       concat (map (\<lambda>bookmaker.
         concat (map (\<lambda>bet.
           map (\<lambda>val. (game, bookmaker, bet, val))
             (elements (get_or bet ''values'' (JArr []))))
           (elements (get_or bookmaker ''bets'' (JArr [])))))
         (elements (get_or game ''bookmakers'' (JArr [])))))
       odds_data)"

definition included :: "json \<times> json \<times> json \<times> json \<Rightarrow> bool" where
  "included q =
     (case q of (game, bookmaker, bet, val) \<Rightarrow>
        market_name_of bet = JStr ''Match Winner''
        \<or> market_name_of bet = JStr ''Draw No Bet''
        \<or> selection_of val = JStr ''Draw'')"

definition match_time_of :: "(int \<Rightarrow> int) \<Rightarrow> json \<Rightarrow> string" where
  "match_time_of tz game =
     (case fromtimestamp_HM tz
             (get_or (get_or game ''fixture'' JNull) ''timestamp'' (JInt 0)) of
        Inl e \<Rightarrow> [] | Inr s \<Rightarrow> s)"

definition row_of :: "(int \<Rightarrow> int) \<Rightarrow> json \<times> json \<times> json \<times> json \<Rightarrow> row" where
  "row_of tz q =
     (case q of (game, bookmaker, bet, val) \<Rightarrow>
        \<lparr>Liga = get_or (get_or game ''league'' (JObj [])) ''name'' (JStr ''Desconocida''),
         Local = get_or (get_or (get_or game ''teams'' (JObj [])) ''home'' (JObj []))
                   ''name'' (JStr ''Desconocido''),
         Visitante = get_or (get_or (get_or game ''teams'' (JObj [])) ''away'' (JObj []))
                       ''name'' (JStr ''Desconocido''),
         Hora = match_time_of tz game,
         Casa_de_Apuestas = get_or bookmaker ''name'' JNull,
         Mercado = market_name_of bet,
         Seleccion = selection_of val,
         Cuota = get_or val ''odd'' (JStr ''N/A'')\<rparr>)"

definition is_hour_minute :: "string \<Rightarrow> bool" where
  "is_hour_minute s = (\<exists>h \<in> set [0..23]. \<exists>mi \<in> set [0..59]. s = strftime_HM h mi)"

text \<open>
  The rows of one market, one bookmaker block and one game, in the order the loops emit
  them.
\<close>

definition keep :: "json \<Rightarrow> json \<Rightarrow> bool" where
  "keep market_name val =
     (market_name = JStr ''Match Winner'' \<or> market_name = JStr ''Draw No Bet''
      \<or> selection_of val = JStr ''Draw'')"

definition mk_row :: "json \<Rightarrow> json \<Rightarrow> json \<Rightarrow> string \<Rightarrow> json \<Rightarrow> json \<Rightarrow> json \<Rightarrow> row" where
  "mk_row league home_team away_team match_time bookmaker market_name val =
     \<lparr>Liga = league, Local = home_team, Visitante = away_team, Hora = match_time,
      Casa_de_Apuestas = get_or bookmaker ''name'' JNull, Mercado = market_name,
      Seleccion = selection_of val, Cuota = get_or val ''odd'' (JStr ''N/A'')\<rparr>"

definition bet_rows :: "json \<Rightarrow> json \<Rightarrow> json \<Rightarrow> string \<Rightarrow> json \<Rightarrow> json \<Rightarrow> row list" where
  "bet_rows league home_team away_team match_time bookmaker bet =
     map (mk_row league home_team away_team match_time bookmaker (market_name_of bet))
       (filter (keep (market_name_of bet)) (elements (get_or bet ''values'' (JArr []))))"

definition bookmaker_rows :: "json \<Rightarrow> json \<Rightarrow> json \<Rightarrow> string \<Rightarrow> json \<Rightarrow> row list" where
  "bookmaker_rows league home_team away_team match_time bookmaker =
     concat (map (bet_rows league home_team away_team match_time bookmaker)
       (elements (get_or bookmaker ''bets'' (JArr []))))"

definition game_rows :: "(int \<Rightarrow> int) \<Rightarrow> json \<Rightarrow> row list" where
  "game_rows tz game = map (row_of tz) (filter included (selections [game]))"

definition seconds_of_day :: "datetime \<Rightarrow> int" where
  "seconds_of_day t = second t + minute t * 60 + hour t * 3600"

text \<open>
  The kick-off timestamp of a record, with the default of the code; and records on which
  every read of the traversal succeeds: the record, its fixture, and its league and teams
  blocks where present, are dicts, the host renders the kick-off, and the bookmakers are a
  list of dicts, each with a name and a list \<^verbatim>\<open>bets\<close> of dicts, each with a list \<^verbatim>\<open>values\<close>
  of dicts.
\<close>

definition kickoff_timestamp :: "json \<Rightarrow> json" where
  "kickoff_timestamp game = get_or (get_or game ''fixture'' JNull) ''timestamp'' (JInt 0)"

definition is_dict :: "json \<Rightarrow> bool" where
  "is_dict v = (case v of JObj kvs \<Rightarrow> True | _ \<Rightarrow> False)"

definition list_of_dicts :: "json \<Rightarrow> bool" where
  "list_of_dicts v = (case v of JArr xs \<Rightarrow> list_all is_dict xs | _ \<Rightarrow> False)"

definition well_formed_bet :: "json \<Rightarrow> bool" where
  "well_formed_bet bet = (is_dict bet \<and> list_of_dicts (get_or bet ''values'' (JArr [])))"

definition well_formed_bookmaker :: "json \<Rightarrow> bool" where
  "well_formed_bookmaker bookmaker =
     (case bookmaker of
        JObj kvs \<Rightarrow>
          map_of kvs ''name'' \<noteq> None \<and>
          (case get_or bookmaker ''bets'' (JArr []) of
             JArr bets \<Rightarrow> list_all well_formed_bet bets
           | _ \<Rightarrow> False)
      | _ \<Rightarrow> False)"

definition renders :: "(int \<Rightarrow> int) \<Rightarrow> json \<Rightarrow> bool" where
  "renders tz timestamp =
     (case fromtimestamp_HM tz timestamp of Inl e \<Rightarrow> False | Inr s \<Rightarrow> True)"

definition well_formed_game :: "(int \<Rightarrow> int) \<Rightarrow> json \<Rightarrow> bool" where
  "well_formed_game tz game =
     (is_dict game \<and> is_dict (get_or game ''fixture'' JNull) \<and>
      renders tz (kickoff_timestamp game) \<and>
      is_dict (get_or game ''league'' (JObj [])) \<and>
      is_dict (get_or game ''teams'' (JObj [])) \<and>
      is_dict (get_or (get_or game ''teams'' (JObj [])) ''home'' (JObj [])) \<and>
      is_dict (get_or (get_or game ''teams'' (JObj [])) ''away'' (JObj [])) \<and>
      (case get_or game ''bookmakers'' (JArr []) of
         JArr bookmakers \<Rightarrow> list_all well_formed_bookmaker bookmakers
       | _ \<Rightarrow> False))"

definition well_formed :: "(int \<Rightarrow> int) \<Rightarrow> json list \<Rightarrow> bool" where
  "well_formed tz odds_data = list_all (well_formed_game tz) odds_data"

section \<open>Concrete inputs\<close>

text \<open>Clock readings on 2024-01-01 (UTC), and two host time zones.\<close>

definition t_midnight :: datetime where
  "t_midnight = \<lparr>year = 2024, month = 1, day = 1, hour = 0, minute = 0, second = 0,
     microsecond = 0\<rparr>"

definition t_afternoon :: datetime where
  "t_afternoon = \<lparr>year = 2024, month = 1, day = 1, hour = 16, minute = 0, second = 0,
     microsecond = 0\<rparr>"

definition t_before_reset :: datetime where
  "t_before_reset = \<lparr>year = 2024, month = 1, day = 1, hour = 7, minute = 59, second = 59,
     microsecond = 0\<rparr>"

definition t_after_reset :: datetime where
  "t_after_reset = \<lparr>year = 2024, month = 1, day = 1, hour = 8, minute = 0, second = 1,
     microsecond = 0\<rparr>"

definition tz_utc :: "int \<Rightarrow> int" where
  "tz_utc t = 0"

definition tz_cet :: "int \<Rightarrow> int" where
  "tz_cet t = 3600"

text \<open>A zone on UTC in winter and one hour ahead from 2024-03-31 01:00:00 UTC on.\<close>

definition tz_west :: "int \<Rightarrow> int" where
  "tz_west t = (if t < 1711846800 then 0 else 3600)"

text \<open>
  The payload of the specification's end-to-end scenario: one fixture with one bookmaker
  \<^verbatim>\<open>BookX\<close> offering \<^verbatim>\<open>Match Winner\<close>; and variants of it.
\<close>

definition home_quote :: json where
  "home_quote = JObj [(''value'', JStr ''Home''), (''odd'', JFloat 1.5)]"

definition draw_quote :: json where
  "draw_quote = JObj [(''value'', JStr ''Draw''), (''odd'', JFloat 3.2)]"

definition away_quote :: json where
  "away_quote = JObj [(''value'', JStr ''Away''), (''odd'', JFloat 2.1)]"

definition match_winner_bet :: json where
  "match_winner_bet =
     JObj [(''name'', JStr ''Match Winner''),
           (''values'', JArr [home_quote, draw_quote, away_quote])]"

definition match_winner_bets :: json where
  "match_winner_bets = JArr [match_winner_bet]"

definition bookx :: json where
  "bookx = JObj [(''name'', JStr ''BookX''), (''bets'', match_winner_bets)]"

definition test_league :: "string \<times> json" where
  "test_league = (''league'', JObj [(''name'', JStr ''Test League'')])"

definition test_teams :: "string \<times> json" where
  "test_teams = (''teams'', JObj [(''home'', JObj [(''name'', JStr ''A'')]),
                                  (''away'', JObj [(''name'', JStr ''B'')])])"

definition scenario_game :: "json \<Rightarrow> json" where
  "scenario_game timestamp =
     JObj [(''fixture'', JObj [(''id'', JInt 1), (''timestamp'', timestamp)]),
           test_league, test_teams, (''bookmakers'', JArr [bookx])]"

definition scenario_row :: "string \<Rightarrow> json \<Rightarrow> json \<Rightarrow> row" where
  "scenario_row time selection price =
     \<lparr>Liga = JStr ''Test League'', Local = JStr ''A'', Visitante = JStr ''B'',
      Hora = time, Casa_de_Apuestas = JStr ''BookX'', Mercado = JStr ''Match Winner'',
      Seleccion = selection, Cuota = price\<rparr>"

definition scenario_rows :: "string \<Rightarrow> row list" where
  "scenario_rows time =
     [scenario_row time (JStr ''Home'') (JFloat 1.5),
      scenario_row time (JStr ''Draw'') (JFloat 3.2),
      scenario_row time (JStr ''Away'') (JFloat 2.1)]"

text \<open>The same bookmaker block twice under one fixture.\<close>

definition duplicate_game :: json where
  "duplicate_game =
     JObj [(''fixture'', JObj [(''id'', JInt 1), (''timestamp'', JInt 1704123000)]),
           test_league, test_teams, (''bookmakers'', JArr [bookx, bookx])]"

text \<open>A totals market with a selection labelled \<^verbatim>\<open>Draw\<close>.\<close>

definition over_under_game :: json where
  "over_under_game =
     JObj [(''fixture'', JObj [(''id'', JInt 1), (''timestamp'', JInt 1704123000)]),
           test_league, test_teams,
           (''bookmakers'', JArr [JObj [(''name'', JStr ''BookX''),
              (''bets'', JArr [JObj [(''name'', JStr ''Over/Under''),
                 (''values'', JArr [JObj [(''value'', JStr ''Over 2.5''), (''odd'', JFloat 1.9)],
                                    JObj [(''value'', JStr ''Draw''), (''odd'', JFloat 3.4)]])]])]])]"

definition over_under_row :: row where
  "over_under_row =
     \<lparr>Liga = JStr ''Test League'', Local = JStr ''A'', Visitante = JStr ''B'',
      Hora = ''15:30'', Casa_de_Apuestas = JStr ''BookX'', Mercado = JStr ''Over/Under'',
      Seleccion = JStr ''Draw'', Cuota = JFloat 3.4\<rparr>"

text \<open>Records with fields absent: the bookmaker's name; the fixture; its timestamp.\<close>

definition unnamed_bookmaker_game :: json where
  "unnamed_bookmaker_game =
     JObj [(''fixture'', JObj [(''id'', JInt 1), (''timestamp'', JInt 1704123000)]),
           test_league, test_teams,
           (''bookmakers'', JArr [JObj [(''bets'', match_winner_bets)]])]"

definition no_fixture_items :: "(string \<times> json) list" where
  "no_fixture_items = [test_league, test_teams, (''bookmakers'', JArr [bookx])]"

definition no_timestamp_game :: json where
  "no_timestamp_game =
     JObj [(''fixture'', JObj [(''id'', JInt 1)]),
           test_league, test_teams, (''bookmakers'', JArr [bookx])]"

text \<open>
  A record with every field absent but the fixture and the bookmaker's name: one market
  without a name offering a \<^verbatim>\<open>Draw\<close> without a price, and a \<^verbatim>\<open>Match Winner\<close> market with
  an empty selection.
\<close>

definition sparse_game :: json where
  "sparse_game =
     JObj [(''fixture'', JObj []),
           (''bookmakers'', JArr [JObj [(''name'', JStr ''BookX''),
              (''bets'', JArr [JObj [(''values'', JArr [JObj [(''value'', JStr ''Draw'')]])],
                               JObj [(''name'', JStr ''Match Winner''),
                                     (''values'', JArr [JObj []])]])]])]"

definition sparse_rows :: "row list" where
  "sparse_rows =
     [\<lparr>Liga = JStr ''Desconocida'', Local = JStr ''Desconocido'',
       Visitante = JStr ''Desconocido'', Hora = ''00:00'', Casa_de_Apuestas = JStr ''BookX'',
       Mercado = JStr ''Desconocido'', Seleccion = JStr ''Draw'', Cuota = JStr ''N/A''\<rparr>,
      \<lparr>Liga = JStr ''Desconocida'', Local = JStr ''Desconocido'',
       Visitante = JStr ''Desconocido'', Hora = ''00:00'', Casa_de_Apuestas = JStr ''BookX'',
       Mercado = JStr ''Match Winner'', Seleccion = JStr ''N/A'', Cuota = JStr ''N/A''\<rparr>]"

text \<open>Networks: no connection; a server error; a success without the container field.\<close>

definition network_down :: "string \<Rightarrow> (string \<times> string) list \<Rightarrow> error + response" where
  "network_down url headers = Inl RequestException"

definition network_503 :: "string \<Rightarrow> (string \<times> string) list \<Rightarrow> error + response" where
  "network_503 url headers = Inr \<lparr>status_code = 503, json_body = None\<rparr>"

definition network_no_container :: "string \<Rightarrow> (string \<times> string) list \<Rightarrow> error + response" where
  "network_no_container url headers =
     Inr \<lparr>status_code = 200, json_body = Some (JObj [(''errors'', JArr [])])\<rparr>"

section \<open>Sequencing of calls that can raise\<close>

lemma ebind_simps:
  "ebind (Inl e) f = Inl e"
  "ebind (Inr x) f = f x"
  by (simp_all add: ebind_def)

section \<open>The calendar\<close>

lemma div_step:
  fixes p n :: int
  assumes n: "0 < n"
  shows "(p + 1) div n = p div n + (if (p + 1) mod n = 0 then 1 else 0)"
proof -
  define q where "q = p div n"
  define r where "r = p mod n"
  have r: "0 \<le> r" "r < n" using n by (simp_all add: r_def)
  have p: "p = q * n + r" by (simp add: q_def r_def)
  have d: "(p + 1) div n = q + (r + 1) div n"
    using n by (simp add: p add.assoc)
  have m: "(p + 1) mod n = (r + 1) mod n"
    by (simp add: p add.assoc)
  show ?thesis
  proof (cases "r + 1 = n")
    case True
    then show ?thesis using n d m by (simp add: q_def)
  next
    case False
    with r have "r + 1 < n" by simp
    then have "(r + 1) div n = 0" "(r + 1) mod n = r + 1" using r by simp_all
    then show ?thesis using d m r by (simp add: q_def)
  qed
qed

lemma mod_100_4: "(y::int) mod 100 = 0 \<Longrightarrow> y mod 4 = 0"
proof -
  assume "y mod 100 = 0"
  then have "100 dvd y" by (simp add: dvd_eq_mod_eq_0)
  moreover have "(4::int) dvd 100" by simp
  ultimately have "4 dvd y" by (rule dvd_trans [rotated])
  then show ?thesis by (simp add: dvd_eq_mod_eq_0)
qed

lemma mod_400_100: "(y::int) mod 400 = 0 \<Longrightarrow> y mod 100 = 0"
proof -
  assume "y mod 400 = 0"
  then have "400 dvd y" by (simp add: dvd_eq_mod_eq_0)
  moreover have "(100::int) dvd 400" by simp
  ultimately have "100 dvd y" by (rule dvd_trans [rotated])
  then show ?thesis by (simp add: dvd_eq_mod_eq_0)
qed

lemma leap_count:
  fixes P4 P100 P400 :: bool
  assumes "P100 \<Longrightarrow> P4" "P400 \<Longrightarrow> P100"
  shows "(if P4 then 1 else 0) - (if P100 then 1 else 0) + (if P400 then 1 else (0::int))
         = (if P4 \<and> (\<not> P100 \<or> P400) then 1 else 0)"
  using assms by auto

lemma dby_succ: "days_before_year (y + 1) = days_before_year y + (if is_leap y then 366 else 365)"
proof -
  define A where "A = (y - 1) div 4"
  define B where "B = (y - 1) div 100"
  define C where "C = (y - 1) div 400"
  define a where "a = (if y mod 4 = 0 then 1 else (0::int))"
  define b where "b = (if y mod 100 = 0 then 1 else (0::int))"
  define c where "c = (if y mod 400 = 0 then 1 else (0::int))"
  define k where "k = (if is_leap y then 1 else (0::int))"
  have ya: "y div 4 = A + a"
    using div_step [of 4 "y - 1"] by (simp add: A_def a_def)
  have yb: "y div 100 = B + b"
    using div_step [of 100 "y - 1"] by (simp add: B_def b_def)
  have yc: "y div 400 = C + c"
    using div_step [of 400 "y - 1"] by (simp add: C_def c_def)
  have l: "days_before_year (y + 1) = y * 365 + (A + a) - (B + b) + (C + c)"
    by (simp add: days_before_year_def ya yb yc)
  have r: "days_before_year y = (y - 1) * 365 + A - B + C"
    by (simp add: days_before_year_def Let_def A_def B_def C_def)
  have k: "a - b + c = k"
    unfolding a_def b_def c_def k_def is_leap_def
    by (rule leap_count) (erule mod_100_4, erule mod_400_100)
  have "(if is_leap y then 366 else 365) = 365 + k"
    by (simp add: k_def)
  then show ?thesis
    using k unfolding l r by (simp add: algebra_simps)
qed

lemma dby_mono: "a \<le> b \<Longrightarrow> days_before_year a \<le> days_before_year b"
proof (induction b rule: int_ge_induct)
  case base
  show ?case by simp
next
  case (step i)
  have "days_before_year i \<le> days_before_year (i + 1)"
    by (simp add: dby_succ)
  with step.IH show ?case by simp
qed

lemma month_cases:
  fixes m :: int
  assumes "1 \<le> m" "m \<le> 12"
  shows "m = 1 \<or> m = 2 \<or> m = 3 \<or> m = 4 \<or> m = 5 \<or> m = 6 \<or> m = 7 \<or> m = 8 \<or> m = 9
    \<or> m = 10 \<or> m = 11 \<or> m = 12"
  using assms by arith

lemma dbm_bounds:
  assumes "1 \<le> m" "m \<le> 12"
  shows "0 \<le> days_before_month y m"
    and "days_before_month y m + days_in_month y m \<le> (if is_leap y then 366 else 365)"
  using month_cases [OF assms]
  by (auto simp add: days_before_month_def days_in_month_def)

lemma dbm_succ:
  assumes "1 \<le> m" "m < 12"
  shows "days_before_month y (m + 1) = days_before_month y m + days_in_month y m"
proof -
  from assms have "m \<le> 12" by simp
  from month_cases [OF assms(1) this] assms(2) show ?thesis
    by (auto simp add: days_before_month_def days_in_month_def)
qed

lemma dbm_mono:
  assumes "1 \<le> a" "a \<le> b" "b \<le> 12"
  shows "days_before_month y a \<le> days_before_month y b"
  using assms(2,3)
proof (induction b rule: int_ge_induct)
  case base
  show ?case by simp
next
  case (step i)
  from step.prems have i: "i < 12" by simp
  from step.hyps assms(1) have "1 \<le> i" by simp
  from dbm_succ [OF this i, of y] have "days_before_month y i \<le> days_before_month y (i + 1)"
    using dbm_bounds(1) [of i y] month_cases [of i] \<open>1 \<le> i\<close> i
    by (auto simp add: days_in_month_def)
  with step.IH i show ?case by simp
qed

lemma ymd2ord_mono:
  assumes a: "valid_date y1 m1 d1" and b: "valid_date y2 m2 d2"
    and lt: "y1 < y2 \<or> (y1 = y2 \<and> (m1 < m2 \<or> (m1 = m2 \<and> d1 < d2)))"
  shows "ymd2ord y1 m1 d1 < ymd2ord y2 m2 d2"
proof -
  from a have a': "1 \<le> m1" "m1 \<le> 12" "1 \<le> d1" "d1 \<le> days_in_month y1 m1"
    by (simp_all add: valid_date_def)
  from b have b': "1 \<le> m2" "m2 \<le> 12" "1 \<le> d2" "d2 \<le> days_in_month y2 m2"
    by (simp_all add: valid_date_def)
  consider (year) "y1 < y2" | (month) "y1 = y2" "m1 < m2" | (day) "y1 = y2" "m1 = m2" "d1 < d2"
    using lt by blast
  then show ?thesis
  proof cases
    case year
    have "ymd2ord y1 m1 d1 \<le> days_before_year y1 + (if is_leap y1 then 366 else 365)"
      using dbm_bounds(2) [OF a'(1,2), of y1] a'(4) by (simp add: ymd2ord_def)
    also have "\<dots> = days_before_year (y1 + 1)" by (simp add: dby_succ)
    also have "\<dots> \<le> days_before_year y2" using year by (intro dby_mono) simp
    also have "\<dots> < ymd2ord y2 m2 d2"
      using dbm_bounds(1) [OF b'(1,2), of y2] b'(3) by (simp add: ymd2ord_def)
    finally show ?thesis .
  next
    case month
    from month(2) b'(2) have lt12: "m1 < 12" by simp
    have "days_before_month y1 m1 + d1 \<le> days_before_month y1 (m1 + 1)"
      using dbm_succ [OF a'(1) lt12, of y1] a'(4) by simp
    also have "\<dots> \<le> days_before_month y1 m2"
      using month(2) a'(1) b'(2) by (intro dbm_mono) simp_all
    finally show ?thesis using b'(3) month(1) by (simp add: ymd2ord_def)
  next
    case day
    then show ?thesis by (simp add: ymd2ord_def)
  qed
qed

section \<open>Ordering of datetimes\<close>

lemma to_microseconds_alt:
  "to_microseconds t =
     (ymd2ord (year t) (month t) (day t) * 86400 + seconds_of_day t) * 1000000 + microsecond t"
  by (simp add: to_microseconds_def seconds_of_day_def)

lemma seconds_of_day_range:
  assumes "valid_time (hour t) (minute t) (second t) (microsecond t)"
  shows "0 \<le> seconds_of_day t" "seconds_of_day t \<le> 86399"
  using assms by (simp_all add: valid_time_def seconds_of_day_def)

lemma time_less_seconds:
  assumes a: "valid_time (hour a) (minute a) (second a) (microsecond a)"
    and b: "valid_time (hour b) (minute b) (second b) (microsecond b)"
    and lt: "hour a < hour b \<or> (hour a = hour b \<and>
     (minute a < minute b \<or> (minute a = minute b \<and>
     (second a < second b \<or> (second a = second b \<and>
      microsecond a < microsecond b)))))"
  shows "seconds_of_day a * 1000000 + microsecond a < seconds_of_day b * 1000000 + microsecond b"
  using assms unfolding valid_time_def seconds_of_day_def by auto

lemma to_microseconds_mono:
  assumes a: "valid_datetime a" and b: "valid_datetime b" and lt: "dt_less a b"
  shows "to_microseconds a < to_microseconds b"
proof -
  from a have da: "valid_date (year a) (month a) (day a)"
    and ta: "valid_time (hour a) (minute a) (second a) (microsecond a)"
    by (simp_all add: valid_datetime_def)
  from b have db: "valid_date (year b) (month b) (day b)"
    and tb: "valid_time (hour b) (minute b) (second b) (microsecond b)"
    by (simp_all add: valid_datetime_def)
  define oa where "oa = ymd2ord (year a) (month a) (day a)"
  define ob where "ob = ymd2ord (year b) (month b) (day b)"
  define sa where "sa = seconds_of_day a"
  define sb where "sb = seconds_of_day b"
  have ra: "0 \<le> sa" "sa \<le> 86399" "0 \<le> microsecond a" "microsecond a \<le> 999999"
    using seconds_of_day_range [OF ta] ta by (simp_all add: sa_def valid_time_def)
  have rb: "0 \<le> sb" "sb \<le> 86399" "0 \<le> microsecond b" "microsecond b \<le> 999999"
    using seconds_of_day_range [OF tb] tb by (simp_all add: sb_def valid_time_def)
  consider (date) "year a < year b \<or> (year a = year b \<and> (month a < month b \<or> (month a = month b \<and> day a < day b)))"
    | (time) "year a = year b" "month a = month b" "day a = day b"
        "hour a < hour b \<or> (hour a = hour b \<and>
     (minute a < minute b \<or> (minute a = minute b \<and>
     (second a < second b \<or> (second a = second b \<and>
      microsecond a < microsecond b)))))"
    using lt unfolding dt_less_def by blast
  then show ?thesis
  proof cases
    case date
    from ymd2ord_mono [OF da db date] have "oa + 1 \<le> ob" by (simp add: oa_def ob_def)
    then have "(oa * 86400 + sa) * 1000000 + microsecond a < (ob * 86400 + sb) * 1000000 + microsecond b"
      using ra rb by simp
    then show ?thesis by (simp add: to_microseconds_alt oa_def ob_def sa_def sb_def)
  next
    case time
    from time_less_seconds [OF ta tb time(4)] time(1-3) show ?thesis
      by (simp add: to_microseconds_alt algebra_simps)
  qed
qed

lemma dt_trichotomy:
  "dt_less a b \<or> dt_less b a \<or>
    (year a = year b \<and> month a = month b \<and> day a = day b \<and> hour a = hour b \<and>
     minute a = minute b \<and> second a = second b \<and> microsecond a = microsecond b)"
  unfolding dt_less_def by auto

lemma to_microseconds_less_iff:
  assumes a: "valid_datetime a" and b: "valid_datetime b"
  shows "to_microseconds a < to_microseconds b \<longleftrightarrow> dt_less a b"
proof
  assume "dt_less a b"
  then show "to_microseconds a < to_microseconds b" by (rule to_microseconds_mono [OF a b])
next
  assume lt: "to_microseconds a < to_microseconds b"
  show "dt_less a b"
  proof (rule ccontr)
    assume n: "\<not> dt_less a b"
    from dt_trichotomy [of a b] n consider "dt_less b a"
      | "year a = year b \<and> month a = month b \<and> day a = day b \<and> hour a = hour b \<and>
     minute a = minute b \<and> second a = second b \<and> microsecond a = microsecond b"
      by blast
    then show False
    proof cases
      case 1
      from to_microseconds_mono [OF b a this] lt show False by simp
    next
      case 2
      then have "to_microseconds a = to_microseconds b" by (simp add: to_microseconds_def)
      with lt show False by simp
    qed
  qed
qed

lemma total_seconds_sign:
  "total_seconds_between a b < 0 \<longleftrightarrow> to_microseconds a < to_microseconds b"
  "0 < total_seconds_between a b \<longleftrightarrow> to_microseconds b < to_microseconds a"
  "total_seconds_between a b = 0 \<longleftrightarrow> to_microseconds a = to_microseconds b"
  by (simp_all add: total_seconds_between_def divide_less_0_iff zero_less_divide_iff)

section \<open>Facts about the reset estimator\<close>

lemma reset_hour_cases:
  fixes h :: int
  assumes "0 \<le> h" "h < 16"
  shows "(h div 8 + 1) * 8 = (if h < 8 then 8 else 16)"
proof (cases "h < 8")
  case True
  with assms have "h div 8 = 0" by simp
  with True show ?thesis by simp
next
  case False
  with assms have "h div 8 = 1" by presburger
  then have "(h div 8 + 1) * 8 = 16" by simp
  then show ?thesis using False by simp
qed

lemma get_api_reset_time_early:
  assumes v: "valid_datetime now" and h: "hour now < 16"
  shows "get_api_reset_time now =
     Inr \<lparr>year = year now, month = month now, day = day now,
          hour = (if hour now < 8 then 8 else 16), minute = 0, second = 0, microsecond = 0\<rparr>"
proof -
  from v have d: "valid_date (year now) (month now) (day now)" and h0: "0 \<le> hour now"
    by (simp_all add: valid_datetime_def valid_time_def)
  have rh: "(hour now div 8 + 1) * 8 = (if hour now < 8 then 8 else 16)"
    by (rule reset_hour_cases [OF h0 h])
  show ?thesis
    unfolding get_api_reset_time_def Let_def rh
    using d h by (simp add: mk_datetime_def valid_time_def ebind_simps dt_less_def)
qed

lemma get_api_reset_time_valid:
  assumes "get_api_reset_time now = Inr R" "valid_datetime now" "hour now < 16"
  shows "valid_datetime R"
  using assms get_api_reset_time_early [OF assms(2,3)]
  by (auto simp add: valid_datetime_def valid_time_def)

lemma get_api_reset_time_late:
  assumes "16 \<le> hour now" "hour now \<le> 23"
  shows "get_api_reset_time now = Inl ValueError"
proof -
  from assms have "hour now div 8 = 2" by presburger
  then have "(hour now div 8 + 1) * 8 = 24" by simp
  then show ?thesis
    by (simp add: get_api_reset_time_def mk_datetime_def valid_time_def ebind_simps)
qed

lemma total_seconds_le_iff:
  "total_seconds_between a b \<le> of_int n \<longleftrightarrow> to_microseconds a - to_microseconds b \<le> n * 1000000"
proof -
  have "total_seconds_between a b \<le> of_int n \<longleftrightarrow>
      (of_int (to_microseconds a - to_microseconds b) :: rat) \<le> of_int n * 1000000"
    by (simp add: total_seconds_between_def divide_le_eq)
  also have "\<dots> \<longleftrightarrow> (of_int (to_microseconds a - to_microseconds b) :: rat) \<le> of_int (n * 1000000)"
    by simp
  also have "\<dots> \<longleftrightarrow> to_microseconds a - to_microseconds b \<le> n * 1000000"
    by (rule of_int_le_iff)
  finally show ?thesis .
qed

lemma total_seconds_eq_iff:
  "total_seconds_between a b = of_int n \<longleftrightarrow> to_microseconds a - to_microseconds b = n * 1000000"
proof -
  have "total_seconds_between a b = of_int n \<longleftrightarrow>
      (of_int (to_microseconds a - to_microseconds b) :: rat) = of_int n * 1000000"
    by (simp add: total_seconds_between_def divide_eq_eq)
  also have "\<dots> \<longleftrightarrow> (of_int (to_microseconds a - to_microseconds b) :: rat) = of_int (n * 1000000)"
    by simp
  also have "\<dots> \<longleftrightarrow> to_microseconds a - to_microseconds b = n * 1000000"
    by (rule of_int_eq_iff)
  finally show ?thesis .
qed

lemma reset_difference:
  assumes v: "valid_datetime now" and h: "hour now < 16"
  defines "R \<equiv> \<lparr>year = year now, month = month now, day = day now,
          hour = (if hour now < 8 then 8 else 16), minute = 0, second = 0, microsecond = 0\<rparr>"
  shows "0 < to_microseconds R - to_microseconds now"
    and "to_microseconds R - to_microseconds now \<le> 28800 * 1000000"
    and "to_microseconds R - to_microseconds now = 28800 * 1000000 \<longleftrightarrow>
       (hour now = 0 \<or> hour now = 8) \<and> minute now = 0 \<and> second now = 0 \<and> microsecond now = 0"
proof -
  from v have t: "0 \<le> hour now" "0 \<le> minute now" "minute now \<le> 59" "0 \<le> second now"
      "second now \<le> 59" "0 \<le> microsecond now" "microsecond now \<le> 999999"
    by (simp_all add: valid_datetime_def valid_time_def)
  have d: "to_microseconds R - to_microseconds now =
      (((if hour now < 8 then 8 else 16) - hour now) * 3600 - minute now * 60 - second now) * 1000000
        - microsecond now"
    by (simp add: to_microseconds_def R_def algebra_simps)
  show "0 < to_microseconds R - to_microseconds now"
    unfolding d using t h by (auto split: if_splits)
  show "to_microseconds R - to_microseconds now \<le> 28800 * 1000000"
    unfolding d using t h by (auto split: if_splits)
  have key: "x * 3600000000 + mi * 60000000 + s * 1000000 + us = 0
      \<longleftrightarrow> x = 0 \<and> mi = 0 \<and> s = 0 \<and> us = 0"
    if "0 \<le> x" "0 \<le> mi" "0 \<le> s" "0 \<le> us" for x mi s us :: int
    using that by arith
  show "to_microseconds R - to_microseconds now = 28800 * 1000000 \<longleftrightarrow>
       (hour now = 0 \<or> hour now = 8) \<and> minute now = 0 \<and> second now = 0 \<and> microsecond now = 0"
  proof (cases "hour now < 8")
    case True
    have "to_microseconds R - to_microseconds now = 28800 * 1000000 \<longleftrightarrow>
        hour now * 3600000000 + minute now * 60000000 + second now * 1000000 + microsecond now = 0"
      unfolding d using True by (simp add: algebra_simps; arith)
    also have "\<dots> \<longleftrightarrow> hour now = 0 \<and> minute now = 0 \<and> second now = 0 \<and> microsecond now = 0"
      by (rule key) (use t in simp_all)
    finally show ?thesis using True by auto
  next
    case False
    have "to_microseconds R - to_microseconds now = 28800 * 1000000 \<longleftrightarrow>
        (hour now - 8) * 3600000000 + minute now * 60000000 + second now * 1000000
          + microsecond now = 0"
      unfolding d using False by (simp add: algebra_simps; arith)
    also have "\<dots> \<longleftrightarrow> hour now - 8 = 0 \<and> minute now = 0 \<and> second now = 0 \<and> microsecond now = 0"
      by (rule key) (use t False in simp_all)
    finally show ?thesis using False by auto
  qed
qed

section \<open>The loops of the normalizer\<close>

lemma ebind_Inr_iff: "ebind m f = Inr y \<longleftrightarrow> (\<exists>x. m = Inr x \<and> f x = Inr y)"
  by (cases m) (simp_all add: ebind_def)

lemma get_Inr: "get d k dflt = Inr v \<Longrightarrow> v = get_or d k dflt"
  by (cases d) (simp_all add: get_def get_or_def)

lemma getitem_Inr: "getitem d k = Inr v \<Longrightarrow> v = get_or d k dflt"
  by (cases d) (auto simp add: getitem_def get_or_def split: option.splits)

lemma iter_Inr: "iter v = Inr xs \<Longrightarrow> xs = elements v"
  by (simp add: elements_def)

lemma for_values_rows:
  "for_values l h a t bk mn vs acc = Inr res \<Longrightarrow>
     res = acc @ map (mk_row l h a t bk mn) (filter (keep mn) vs)"
proof (induction vs arbitrary: acc)
  case Nil
  then show ?case by simp
next
  case (Cons v vs)
  from Cons.prems obtain sel odd where
    sel: "get v ''value'' (JStr ''N/A'') = Inr sel" and
    odd: "get v ''odd'' (JStr ''N/A'') = Inr odd" and
    rest: "(if mn \<in> set [JStr ''Match Winner'', JStr ''Draw No Bet''] \<or> sel = JStr ''Draw''
       then ebind (getitem bk ''name'') (\<lambda>name.
              for_values l h a t bk mn vs
                (acc @ [\<lparr>Liga = l, Local = h, Visitante = a, Hora = t, Casa_de_Apuestas = name, Mercado = mn,
                    Seleccion = sel, Cuota = odd\<rparr>]))
       else for_values l h a t bk mn vs acc) = Inr res"
    by (auto simp add: ebind_Inr_iff)
  have sel': "sel = selection_of v" using get_Inr [OF sel] by (simp add: selection_of_def)
  have odd': "odd = get_or v ''odd'' (JStr ''N/A'')" by (rule get_Inr [OF odd])
  show ?case
  proof (cases "keep mn v")
    case True
    with rest sel' obtain name where
      name: "getitem bk ''name'' = Inr name" and
      r: "for_values l h a t bk mn vs (acc @ [\<lparr>Liga = l, Local = h, Visitante = a, Hora = t, Casa_de_Apuestas = name, Mercado = mn,
                    Seleccion = sel, Cuota = odd\<rparr>]) = Inr res"
      by (auto simp add: keep_def ebind_Inr_iff)
    have "name = get_or bk ''name'' JNull" by (rule getitem_Inr [OF name])
    with Cons.IH [OF r] True sel' odd' show ?thesis by (simp add: mk_row_def)
  next
    case False
    with rest sel' have "for_values l h a t bk mn vs acc = Inr res"
      by (auto simp add: keep_def)
    from Cons.IH [OF this] False show ?thesis by simp
  qed
qed

lemma for_bets_rows:
  "for_bets l h a t bk bets acc = Inr res \<Longrightarrow>
     res = acc @ concat (map (bet_rows l h a t bk) bets)"
proof (induction bets arbitrary: acc)
  case Nil
  then show ?case by simp
next
  case (Cons bet bets)
  from Cons.prems obtain mn vals vs mid where
    mn: "get bet ''name'' (JStr ''Desconocido'') = Inr mn" and
    vals: "get bet ''values'' (JArr []) = Inr vals" and
    vs: "iter vals = Inr vs" and
    mid: "for_values l h a t bk mn vs acc = Inr mid" and
    rest: "for_bets l h a t bk bets mid = Inr res"
    by (auto simp add: ebind_Inr_iff)
  have "mn = market_name_of bet" using get_Inr [OF mn] by (simp add: market_name_of_def)
  moreover have "vs = elements (get_or bet ''values'' (JArr []))"
    using get_Inr [OF vals] iter_Inr [OF vs] by simp
  ultimately have "mid = acc @ bet_rows l h a t bk bet"
    using for_values_rows [OF mid] by (simp add: bet_rows_def)
  with Cons.IH [OF rest] show ?case by simp
qed

lemma for_bookmakers_rows:
  "for_bookmakers l h a t bks acc = Inr res \<Longrightarrow>
     res = acc @ concat (map (bookmaker_rows l h a t) bks)"
proof (induction bks arbitrary: acc)
  case Nil
  then show ?case by simp
next
  case (Cons bk bks)
  from Cons.prems obtain bs bets mid where
    bs: "get bk ''bets'' (JArr []) = Inr bs" and
    bets: "iter bs = Inr bets" and
    mid: "for_bets l h a t bk bets acc = Inr mid" and
    rest: "for_bookmakers l h a t bks mid = Inr res"
    by (auto simp add: ebind_Inr_iff)
  have "bets = elements (get_or bk ''bets'' (JArr []))"
    using get_Inr [OF bs] iter_Inr [OF bets] by simp
  then have "mid = acc @ bookmaker_rows l h a t bk"
    using for_bets_rows [OF mid] by (simp add: bookmaker_rows_def)
  with Cons.IH [OF rest] show ?case by simp
qed

lemma game_rows_eq:
  "game_rows tz game =
     concat (map (bookmaker_rows
         (get_or (get_or game ''league'' (JObj [])) ''name'' (JStr ''Desconocida''))
         (get_or (get_or (get_or game ''teams'' (JObj [])) ''home'' (JObj [])) ''name'' (JStr ''Desconocido''))
         (get_or (get_or (get_or game ''teams'' (JObj [])) ''away'' (JObj [])) ''name'' (JStr ''Desconocido''))
         (match_time_of tz game))
       (elements (get_or game ''bookmakers'' (JArr []))))"
proof -
  have a: "mk_row l h a t bk mn =
      (\<lambda>val. \<lparr>Liga = l, Local = h, Visitante = a, Hora = t,
        Casa_de_Apuestas = get_or bk ''name'' JNull, Mercado = mn,
        Seleccion = selection_of val, Cuota = get_or val ''odd'' (JStr ''N/A'')\<rparr>)"
    for l h a t bk mn
    by (rule ext) (simp add: mk_row_def)
  have d: "keep mn = (\<lambda>val. mn = JStr ''Match Winner'' \<or> mn = JStr ''Draw No Bet''
      \<or> selection_of val = JStr ''Draw'')" for mn
    by (rule ext) (simp add: keep_def)
  have b: "bet_rows l h a t bk = (\<lambda>bet. map (mk_row l h a t bk (market_name_of bet))
       (filter (keep (market_name_of bet)) (elements (get_or bet ''values'' (JArr [])))))"
    for l h a t bk
    by (rule ext) (simp add: bet_rows_def)
  have c: "bookmaker_rows l h a t =
      (\<lambda>bk. concat (map (bet_rows l h a t bk) (elements (get_or bk ''bets'' (JArr [])))))"
    for l h a t
    by (rule ext) (simp add: bookmaker_rows_def)
  show ?thesis
    by (simp add: game_rows_def selections_def map_concat filter_concat comp_def
        filter_map row_of_def included_def a b c d)
qed

lemma analyze_game_rows:
  assumes "analyze_game tz game acc = Inr res"
  shows "res = acc @ game_rows tz game"
proof -
  from assms obtain fixture lg league teams home home_team teams' away away_team
      timestamp match_time bms bookmakers where
    f: "get game ''fixture'' JNull = Inr fixture" and
    lg: "get game ''league'' (JObj []) = Inr lg" and
    league: "get lg ''name'' (JStr ''Desconocida'') = Inr league" and
    teams: "get game ''teams'' (JObj []) = Inr teams" and
    home: "get teams ''home'' (JObj []) = Inr home" and
    home_team: "get home ''name'' (JStr ''Desconocido'') = Inr home_team" and
    teams': "get game ''teams'' (JObj []) = Inr teams'" and
    away: "get teams' ''away'' (JObj []) = Inr away" and
    away_team: "get away ''name'' (JStr ''Desconocido'') = Inr away_team" and
    timestamp: "get fixture ''timestamp'' (JInt 0) = Inr timestamp" and
    match_time: "fromtimestamp_HM tz timestamp = Inr match_time" and
    bms: "get game ''bookmakers'' (JArr []) = Inr bms" and
    bookmakers: "iter bms = Inr bookmakers" and
    loop: "for_bookmakers league home_team away_team match_time bookmakers acc = Inr res"
    unfolding analyze_game_def ebind_Inr_iff by blast
  have "league = get_or (get_or game ''league'' (JObj [])) ''name'' (JStr ''Desconocida'')"
    using get_Inr [OF lg] get_Inr [OF league] by simp
  moreover have "home_team = get_or (get_or (get_or game ''teams'' (JObj [])) ''home'' (JObj [])) ''name'' (JStr ''Desconocido'')"
    using get_Inr [OF teams] get_Inr [OF home] get_Inr [OF home_team] by simp
  moreover have "away_team = get_or (get_or (get_or game ''teams'' (JObj [])) ''away'' (JObj [])) ''name'' (JStr ''Desconocido'')"
    using get_Inr [OF teams'] get_Inr [OF away] get_Inr [OF away_team] by simp
  moreover have "match_time = match_time_of tz game"
    using get_Inr [OF f] get_Inr [OF timestamp] match_time by (simp add: match_time_of_def)
  moreover have "bookmakers = elements (get_or game ''bookmakers'' (JArr []))"
    using get_Inr [OF bms] iter_Inr [OF bookmakers] by simp
  ultimately show ?thesis
    using for_bookmakers_rows [OF loop] by (simp add: game_rows_eq)
qed

lemma selections_Cons: "selections (game # rest) = selections [game] @ selections rest"
  by (simp add: selections_def)

lemma for_games_rows:
  "for_games tz games acc = Inr res \<Longrightarrow>
     res = acc @ map (row_of tz) (filter included (selections games))"
proof (induction games arbitrary: acc)
  case Nil
  then show ?case by (simp add: selections_def)
next
  case (Cons game games)
  from Cons.prems obtain mid where
    mid: "analyze_game tz game acc = Inr mid" and
    rest: "for_games tz games mid = Inr res"
    by (auto simp add: ebind_Inr_iff)
  have "mid = acc @ game_rows tz game" by (rule analyze_game_rows [OF mid])
  with Cons.IH [OF rest] show ?case
    by (simp add: selections_Cons [of game games] game_rows_def)
qed

lemma analyze_odds_rows:
  "analyze_odds tz odds_data = Inr rows \<Longrightarrow>
     rows = map (row_of tz) (filter included (selections odds_data))"
  using for_games_rows [of tz odds_data "[]" rows] by (simp add: analyze_odds_def)

lemma get_Inl: "get d k dflt = Inl e \<Longrightarrow> e = AttributeError"
  by (cases d) (simp_all add: get_def)

lemma get_JObj: "get (JObj kvs) k dflt = Inr (case map_of kvs k of None \<Rightarrow> dflt | Some v \<Rightarrow> v)"
  by (simp add: get_def)

lemma get_Inr_JObj: "get d k dflt = Inr v \<Longrightarrow> \<exists>kvs. d = JObj kvs"
  by (cases d) (simp_all add: get_def)

lemma analyze_game_fixture:
  assumes "analyze_game tz game acc = Inr res"
  shows "\<exists>kvs fx. game = JObj kvs \<and> map_of kvs ''fixture'' = Some (JObj fx)"
proof -
  from assms obtain fixture timestamp where
    f: "get game ''fixture'' JNull = Inr fixture" and
    t: "get fixture ''timestamp'' (JInt 0) = Inr timestamp"
    unfolding analyze_game_def ebind_Inr_iff by blast
  from get_Inr_JObj [OF f] obtain kvs where g: "game = JObj kvs" by blast
  from get_Inr_JObj [OF t] obtain fx where fx: "fixture = JObj fx" by blast
  from f g fx have "map_of kvs ''fixture'' = Some (JObj fx)"
    by (simp add: get_JObj split: option.splits)
  with g show ?thesis by blast
qed

lemma analyze_game_no_fixture:
  assumes "map_of kvs ''fixture'' = None"
  shows "analyze_game tz (JObj kvs) acc = Inl AttributeError"
proof (cases "analyze_game tz (JObj kvs) acc")
  case (Inr res)
  from analyze_game_fixture [OF this] assms show ?thesis by simp
next
  case (Inl e)
  have f: "get (JObj kvs) ''fixture'' JNull = Inr JNull"
    using assms by (simp add: get_JObj)
  have n: "get JNull ''timestamp'' (JInt 0) = Inl AttributeError"
    by (simp add: get_def)
  have "e = AttributeError"
    using Inl unfolding analyze_game_def f ebind_simps
    by (auto simp add: ebind_def n split: sum.splits dest: get_Inl)
  with Inl show ?thesis by simp
qed

lemma for_games_Inr_all:
  "for_games tz games acc = Inr res \<Longrightarrow> game \<in> set games \<Longrightarrow>
     \<exists>acc' res'. analyze_game tz game acc' = Inr res'"
proof (induction games arbitrary: acc)
  case Nil
  then show ?case by simp
next
  case (Cons g games)
  from Cons.prems(1) obtain mid where
    mid: "analyze_game tz g acc = Inr mid" and
    rest: "for_games tz games mid = Inr res"
    by (auto simp add: ebind_Inr_iff)
  show ?case
  proof (cases "game = g")
    case True
    with mid show ?thesis by blast
  next
    case False
    with Cons.prems(2) have "game \<in> set games" by simp
    from Cons.IH [OF rest this] show ?thesis .
  qed
qed

lemma for_games_first_error:
  "analyze_game tz game acc = Inl e \<Longrightarrow> for_games tz (game # rest) acc = Inl e"
  by (simp add: ebind_simps)

section \<open>Kick-off times\<close>

lemma hour_minute_range:
  fixes w :: int
  shows "0 \<le> (w mod 86400) div 3600" "(w mod 86400) div 3600 \<le> 23"
    "0 \<le> (w mod 3600) div 60" "(w mod 3600) div 60 \<le> 59"
proof -
  have a: "0 \<le> w mod 86400" "w mod 86400 < 86400" by simp_all
  have b: "0 \<le> w mod 3600" "w mod 3600 < 3600" by simp_all
  show "0 \<le> (w mod 86400) div 3600" using a(1) by (simp add: pos_imp_zdiv_nonneg_iff)
  show "0 \<le> (w mod 3600) div 60" using b(1) by (simp add: pos_imp_zdiv_nonneg_iff)
  have "(w mod 86400) div 3600 \<le> 86399 div 3600"
    by (rule zdiv_mono1) (use a(2) in simp_all)
  then show "(w mod 86400) div 3600 \<le> 23" by simp
  have "(w mod 3600) div 60 \<le> 3599 div 60"
    by (rule zdiv_mono1) (use b(2) in simp_all)
  then show "(w mod 3600) div 60 \<le> 59" by simp
qed

lemma fromtimestamp_HM_Inr:
  assumes "fromtimestamp_HM tz timestamp = Inr s"
  shows "\<exists>t. timestamp_seconds timestamp = Inr t \<and>
     s = strftime_HM (((t + tz t) mod 86400) div 3600) (((t + tz t) mod 3600) div 60)"
  using assms
  by (auto simp add: fromtimestamp_HM_def ebind_Inr_iff Let_def split: if_splits)

lemma fromtimestamp_HM_wf:
  assumes "fromtimestamp_HM tz timestamp = Inr s"
  shows "is_hour_minute s"
proof -
  from fromtimestamp_HM_Inr [OF assms] obtain t where
    s: "s = strftime_HM (((t + tz t) mod 86400) div 3600) (((t + tz t) mod 3600) div 60)"
    by blast
  have "((t + tz t) mod 86400) div 3600 \<in> set [0..23]"
    using hour_minute_range(1,2) [of "t + tz t"] by simp
  moreover have "((t + tz t) mod 3600) div 60 \<in> set [0..59]"
    using hour_minute_range(3,4) [of "t + tz t"] by simp
  ultimately show ?thesis
    unfolding is_hour_minute_def s by blast
qed

lemma analyze_game_time:
  assumes "analyze_game tz game acc = Inr res"
  shows "fromtimestamp_HM tz (get_or (get_or game ''fixture'' JNull) ''timestamp'' (JInt 0))
     = Inr (match_time_of tz game)"
proof -
  from assms obtain fixture timestamp match_time where
    f: "get game ''fixture'' JNull = Inr fixture" and
    t: "get fixture ''timestamp'' (JInt 0) = Inr timestamp" and
    m: "fromtimestamp_HM tz timestamp = Inr match_time"
    unfolding analyze_game_def ebind_Inr_iff by blast
  from get_Inr [OF f] get_Inr [OF t] m show ?thesis
    by (simp add: match_time_of_def)
qed

lemma selections_game:
  "(game, bookmaker, bet, val) \<in> set (selections odds_data) \<Longrightarrow> game \<in> set odds_data"
  by (auto simp add: selections_def)

lemma analyze_odds_time:
  assumes "analyze_odds tz odds_data = Inr rows" "game \<in> set odds_data"
  shows "fromtimestamp_HM tz (get_or (get_or game ''fixture'' JNull) ''timestamp'' (JInt 0))
     = Inr (match_time_of tz game)"
proof -
  from assms obtain acc res where "analyze_game tz game acc = Inr res"
    using for_games_Inr_all [of tz odds_data "[]" rows game] by (auto simp add: analyze_odds_def)
  then show ?thesis by (rule analyze_game_time)
qed

lemma Hora_row_of: "Hora (row_of tz (game, bookmaker, bet, val)) = match_time_of tz game"
  by (simp add: row_of_def)

lemma analyze_odds_Hora:
  assumes "analyze_odds tz odds_data = Inr rows" "r \<in> set rows"
  shows "is_hour_minute (Hora r)"
proof -
  from analyze_odds_rows [OF assms(1)] assms(2) obtain q where
    q: "q \<in> set (selections odds_data)" and r: "r = row_of tz q"
    by auto
  obtain game bookmaker bet val where q': "q = (game, bookmaker, bet, val)"
    by (cases q) auto
  from q q' have "game \<in> set odds_data" by (auto dest: selections_game)
  from analyze_odds_time [OF assms(1) this] have "is_hour_minute (match_time_of tz game)"
    by (rule fromtimestamp_HM_wf)
  then show ?thesis by (simp add: r q' Hora_row_of)
qed

lemma epoch_time:
  assumes "fromtimestamp_HM tz (JInt 0) = Inr s"
  shows "s = strftime_HM ((tz 0 mod 86400) div 3600) ((tz 0 mod 3600) div 60)"
  using fromtimestamp_HM_Inr [OF assms] by (simp add: timestamp_seconds_def)

section \<open>The concrete clock readings\<close>

lemma valid_t_midnight: "valid_datetime t_midnight"
  by (simp add: t_midnight_def valid_datetime_def valid_date_def valid_time_def
      days_in_month_def)

lemma valid_t_before_reset: "valid_datetime t_before_reset"
  by (simp add: t_before_reset_def valid_datetime_def valid_date_def valid_time_def
      days_in_month_def)

lemma valid_t_after_reset: "valid_datetime t_after_reset"
  by (simp add: t_after_reset_def valid_datetime_def valid_date_def valid_time_def
      days_in_month_def)

lemma reset_at_midnight:
  "get_api_reset_time t_midnight = Inr (t_midnight\<lparr>hour := 8\<rparr>)"
  using get_api_reset_time_early [OF valid_t_midnight] by (simp add: t_midnight_def)

lemma reset_before_eight:
  "get_api_reset_time t_before_reset =
     Inr (t_before_reset\<lparr>hour := 8, minute := 0, second := 0\<rparr>)"
  using get_api_reset_time_early [OF valid_t_before_reset] by (simp add: t_before_reset_def)

section \<open>Claims about the quota reset estimator\<close>

text \<open>
  Claim C1, as the specification states it: for every instant \<open>T\<close> the estimator returns
  an instant \<open>R\<close> after \<open>T\<close>, at 00:00, 08:00 or 16:00, less than eight hours away, rolling
  over to hour 0 of the next day when the candidate hour reaches 24, with no error.
  The code differs at two places. At 00:00:00 sharp (and 08:00:00 sharp) the reset is
  exactly eight hours away, not less. At 16:00 the candidate hour is 24 and the
  constructor \<^verbatim>\<open>datetime(..., 24, 0, 0)\<close> raises \<^verbatim>\<open>ValueError\<close>.
\<close>

theorem get_api_reset_time_counterexample:
  "get_api_reset_time t_midnight = Inr (t_midnight\<lparr>hour := 8\<rparr>) \<and>
   total_seconds_between (t_midnight\<lparr>hour := 8\<rparr>) t_midnight = 28800 \<and>
   get_api_reset_time t_afternoon = Inl ValueError"
proof -
  have "total_seconds_between (t_midnight\<lparr>hour := 8\<rparr>) t_midnight = 28800"
    using total_seconds_eq_iff [of "t_midnight\<lparr>hour := 8\<rparr>" t_midnight 28800]
    by (simp add: to_microseconds_def t_midnight_def)
  moreover have "get_api_reset_time t_afternoon = Inl ValueError"
    by (rule get_api_reset_time_late) (simp_all add: t_afternoon_def)
  ultimately show ?thesis using reset_at_midnight by blast
qed

text \<open>
  Claim C1, amended: for every valid instant \<open>now\<close> whose hour is below 16 the estimator
  returns an instant \<open>R\<close> later than \<open>now\<close>, on the same calendar day at 08:00:00 or
  16:00:00, more than zero and at most eight hours away; it is exactly eight hours away
  when \<open>now\<close> is 00:00:00 or 08:00:00 to the microsecond, and only then.
\<close>

theorem get_api_reset_time_before_16:
  assumes "valid_datetime now" and "hour now < 16"
  shows "\<exists>R. get_api_reset_time now = Inr R \<and> dt_less now R \<and>
     year R = year now \<and> month R = month now \<and> day R = day now \<and>
     (hour R = 8 \<or> hour R = 16) \<and> minute R = 0 \<and> second R = 0 \<and> microsecond R = 0 \<and>
     0 < total_seconds_between R now \<and> total_seconds_between R now \<le> 28800 \<and>
     (total_seconds_between R now = 28800 \<longleftrightarrow>
        (hour now = 0 \<or> hour now = 8) \<and> minute now = 0 \<and> second now = 0 \<and> microsecond now = 0)"
proof -
  define R where "R = \<lparr>year = year now, month = month now, day = day now,
          hour = (if hour now < 8 then 8 else 16), minute = 0, second = 0, microsecond = 0\<rparr>"
  have r: "get_api_reset_time now = Inr R"
    unfolding R_def by (rule get_api_reset_time_early [OF assms])
  have less: "dt_less now R" using assms(2) by (simp add: R_def dt_less_def)
  note d = reset_difference [OF assms, folded R_def]
  have pos: "0 < total_seconds_between R now"
    using d(1) by (simp add: total_seconds_sign)
  have le: "total_seconds_between R now \<le> 28800"
    using d(2) total_seconds_le_iff [of R now 28800] by simp
  have eq: "total_seconds_between R now = 28800 \<longleftrightarrow>
        (hour now = 0 \<or> hour now = 8) \<and> minute now = 0 \<and> second now = 0 \<and> microsecond now = 0"
    using d(3) total_seconds_eq_iff [of R now 28800] by simp
  have fields: "year R = year now \<and> month R = month now \<and> day R = day now \<and>
     (hour R = 8 \<or> hour R = 16) \<and> minute R = 0 \<and> second R = 0 \<and> microsecond R = 0"
    by (simp add: R_def)
  from r less fields pos le eq show ?thesis by blast
qed

text \<open>At 07:59:59 the reset is 08:00:00 of the same day.\<close>

theorem get_api_reset_time_before_16_witness:
  "valid_datetime t_before_reset \<and> hour t_before_reset < 16 \<and>
   (\<exists>R. get_api_reset_time t_before_reset = Inr R \<and> dt_less t_before_reset R \<and>
      hour R = 8 \<and> minute R = 0 \<and> second R = 0 \<and>
      0 < total_seconds_between R t_before_reset \<and>
      total_seconds_between R t_before_reset \<le> 28800)"
proof -
  have h: "hour t_before_reset < 16" by (simp add: t_before_reset_def)
  from get_api_reset_time_before_16 [OF valid_t_before_reset h] obtain R where
    R: "get_api_reset_time t_before_reset = Inr R" "dt_less t_before_reset R"
      "minute R = 0" "second R = 0" "0 < total_seconds_between R t_before_reset"
      "total_seconds_between R t_before_reset \<le> 28800"
    by blast
  from R(1) have "R = t_before_reset\<lparr>hour := 8, minute := 0, second := 0\<rparr>"
    by (simp add: reset_before_eight)
  then have "hour R = 8" by simp
  with R valid_t_before_reset h show ?thesis by blast
qed

text \<open>
  Claim C5, as the specification states it: the remaining time is never negative, clamped
  to zero when the boundary is not in the future. The code subtracts and does not clamp:
  with the reset computed at 07:59:59 and the clock read again at 08:00:01, the remaining
  time is minus one second.
\<close>

theorem get_remaining_time_negative:
  "get_remaining_time t_before_reset t_after_reset = Inr (- 1) \<and> (- 1 :: rat) < 0"
proof -
  have "total_seconds_between (t_before_reset\<lparr>hour := 8, minute := 0, second := 0\<rparr>)
      t_after_reset = of_int (- 1)"
    unfolding total_seconds_eq_iff
    by (simp add: to_microseconds_def t_before_reset_def t_after_reset_def)
  then show ?thesis
    by (simp add: get_remaining_time_def reset_before_eight ebind_simps)
qed

text \<open>
  Claim C5, amended: when the reset was computed at a valid instant \<open>reset_now\<close> whose hour
  is below 16, \<^verbatim>\<open>get_remaining_time\<close> returns the reset instant minus the clock reading
  \<open>now\<close>, unclamped: the value is negative exactly when \<open>now\<close> is later than the reset
  instant, and positive exactly when \<open>now\<close> is earlier.
\<close>

theorem get_remaining_time_unclamped:
  assumes "valid_datetime reset_now" and "hour reset_now < 16" and "valid_datetime now"
  shows "\<exists>R. get_api_reset_time reset_now = Inr R \<and>
     get_remaining_time reset_now now = Inr (total_seconds_between R now) \<and>
     (total_seconds_between R now < 0 \<longleftrightarrow> dt_less R now) \<and>
     (0 < total_seconds_between R now \<longleftrightarrow> dt_less now R)"
proof -
  define R where "R = \<lparr>year = year reset_now, month = month reset_now, day = day reset_now,
          hour = (if hour reset_now < 8 then 8 else 16), minute = 0, second = 0,
          microsecond = 0\<rparr>"
  have r: "get_api_reset_time reset_now = Inr R"
    unfolding R_def by (rule get_api_reset_time_early [OF assms(1,2)])
  have vr: "valid_datetime R" by (rule get_api_reset_time_valid [OF r assms(1,2)])
  have "get_remaining_time reset_now now = Inr (total_seconds_between R now)"
    by (simp add: get_remaining_time_def r ebind_simps)
  moreover have "total_seconds_between R now < 0 \<longleftrightarrow> dt_less R now"
    by (simp add: total_seconds_sign to_microseconds_less_iff [OF vr assms(3)])
  moreover have "0 < total_seconds_between R now \<longleftrightarrow> dt_less now R"
    by (simp add: total_seconds_sign to_microseconds_less_iff [OF assms(3) vr])
  ultimately show ?thesis using r by blast
qed

text \<open>Reset computed at 07:59:59, clock read at 08:00:01: the value is negative.\<close>

theorem get_remaining_time_unclamped_witness:
  "valid_datetime t_before_reset \<and> hour t_before_reset < 16 \<and> valid_datetime t_after_reset \<and>
   (\<exists>R. get_api_reset_time t_before_reset = Inr R \<and>
      get_remaining_time t_before_reset t_after_reset = Inr (total_seconds_between R t_after_reset) \<and>
      dt_less R t_after_reset \<and> total_seconds_between R t_after_reset < 0)"
proof -
  have h: "hour t_before_reset < 16" by (simp add: t_before_reset_def)
  from get_remaining_time_unclamped [OF valid_t_before_reset h valid_t_after_reset]
  obtain R where
    R: "get_api_reset_time t_before_reset = Inr R"
      "get_remaining_time t_before_reset t_after_reset = Inr (total_seconds_between R t_after_reset)"
      "total_seconds_between R t_after_reset < 0 \<longleftrightarrow> dt_less R t_after_reset"
    by blast
  from R(1) have "R = t_before_reset\<lparr>hour := 8, minute := 0, second := 0\<rparr>"
    by (simp add: reset_before_eight)
  then have "dt_less R t_after_reset"
    by (simp add: dt_less_def t_before_reset_def t_after_reset_def)
  with R valid_t_before_reset h valid_t_after_reset show ?thesis by blast
qed

section \<open>Well-formed records\<close>

lemma is_dict_get: "is_dict d \<Longrightarrow> get d k dflt = Inr (get_or d k dflt)"
  by (cases d) (simp_all add: is_dict_def get_def get_or_def)

lemma for_values_returns:
  assumes "list_all is_dict vs" and "getitem bk ''name'' = Inr name"
  shows "\<exists>res. for_values l h a t bk mn vs acc = Inr res"
  using assms(1)
proof (induction vs arbitrary: acc)
  case Nil
  show ?case by simp
next
  case (Cons v vs)
  from Cons.prems have v: "is_dict v" and vs: "list_all is_dict vs" by simp_all
  note IH = Cons.IH [OF vs]
  show ?case
  proof (cases "mn \<in> set [JStr ''Match Winner'', JStr ''Draw No Bet'']
      \<or> get_or v ''value'' (JStr ''N/A'') = JStr ''Draw''")
    case True
    then show ?thesis
      using IH [of "acc @ [\<lparr>Liga = l, Local = h, Visitante = a, Hora = t,
          Casa_de_Apuestas = name, Mercado = mn,
          Seleccion = get_or v ''value'' (JStr ''N/A''),
          Cuota = get_or v ''odd'' (JStr ''N/A'')\<rparr>]"]
      by (simp add: is_dict_get [OF v] ebind_simps assms(2))
  next
    case False
    then show ?thesis
      using IH [of acc] by (simp add: is_dict_get [OF v] ebind_simps)
  qed
qed

lemma list_of_dicts_iter:
  "list_of_dicts v \<Longrightarrow> \<exists>xs. v = JArr xs \<and> iter v = Inr xs \<and> list_all is_dict xs"
  by (cases v) (simp_all add: list_of_dicts_def iter_def)

lemma for_bets_returns:
  assumes "list_all well_formed_bet bets" and "getitem bk ''name'' = Inr name"
  shows "\<exists>res. for_bets l h a t bk bets acc = Inr res"
  using assms(1)
proof (induction bets arbitrary: acc)
  case Nil
  show ?case by simp
next
  case (Cons bet bets)
  from Cons.prems have w: "well_formed_bet bet" and rest: "list_all well_formed_bet bets"
    by simp_all
  from w have d: "is_dict bet" and vd: "list_of_dicts (get_or bet ''values'' (JArr []))"
    by (simp_all add: well_formed_bet_def)
  from list_of_dicts_iter [OF vd] obtain vs where
    it: "iter (get_or bet ''values'' (JArr [])) = Inr vs" and vs: "list_all is_dict vs"
    by blast
  from for_values_returns [OF vs assms(2)] obtain mid where
    "for_values l h a t bk (get_or bet ''name'' (JStr ''Desconocido'')) vs acc = Inr mid"
    by blast
  with Cons.IH [OF rest, of mid] show ?case
    by (simp add: is_dict_get [OF d] ebind_simps it)
qed

lemma well_formed_bookmaker_parts:
  assumes "well_formed_bookmaker bk"
  shows "is_dict bk" and "\<exists>name. getitem bk ''name'' = Inr name"
    and "\<exists>bets. iter (get_or bk ''bets'' (JArr [])) = Inr bets \<and> list_all well_formed_bet bets"
proof -
  from assms obtain kvs where bk: "bk = JObj kvs"
    by (cases bk) (simp_all add: well_formed_bookmaker_def)
  show "is_dict bk" by (simp add: bk is_dict_def)
  from assms bk show "\<exists>name. getitem bk ''name'' = Inr name"
    by (auto simp add: well_formed_bookmaker_def getitem_def)
  from assms bk have "case get_or bk ''bets'' (JArr []) of
      JArr bets \<Rightarrow> list_all well_formed_bet bets | _ \<Rightarrow> False"
    by (simp add: well_formed_bookmaker_def)
  then show "\<exists>bets. iter (get_or bk ''bets'' (JArr [])) = Inr bets \<and> list_all well_formed_bet bets"
    by (cases "get_or bk ''bets'' (JArr [])") (simp_all add: iter_def)
qed

lemma for_bookmakers_returns:
  assumes "list_all well_formed_bookmaker bks"
  shows "\<exists>res. for_bookmakers l h a t bks acc = Inr res"
  using assms
proof (induction bks arbitrary: acc)
  case Nil
  show ?case by simp
next
  case (Cons bk bks)
  from Cons.prems have w: "well_formed_bookmaker bk"
    and rest: "list_all well_formed_bookmaker bks"
    by simp_all
  from well_formed_bookmaker_parts [OF w] obtain name bets where
    d: "is_dict bk" and n: "getitem bk ''name'' = Inr name" and
    it: "iter (get_or bk ''bets'' (JArr [])) = Inr bets" and bets: "list_all well_formed_bet bets"
    by blast
  from for_bets_returns [OF bets n] obtain mid where
    "for_bets l h a t bk bets acc = Inr mid"
    by blast
  with Cons.IH [OF rest, of mid] show ?case
    by (simp add: is_dict_get [OF d] ebind_simps it)
qed

lemma analyze_game_returns:
  assumes "well_formed_game tz game"
  shows "\<exists>res. analyze_game tz game acc = Inr res"
proof -
  from assms have g: "is_dict game" and f: "is_dict (get_or game ''fixture'' JNull)"
    and r: "renders tz (kickoff_timestamp game)"
    and lg: "is_dict (get_or game ''league'' (JObj []))"
    and tm: "is_dict (get_or game ''teams'' (JObj []))"
    and hm: "is_dict (get_or (get_or game ''teams'' (JObj [])) ''home'' (JObj []))"
    and aw: "is_dict (get_or (get_or game ''teams'' (JObj [])) ''away'' (JObj []))"
    and bk: "case get_or game ''bookmakers'' (JArr []) of
         JArr bookmakers \<Rightarrow> list_all well_formed_bookmaker bookmakers | _ \<Rightarrow> False"
    by (simp_all add: well_formed_game_def)
  from r obtain s where s: "fromtimestamp_HM tz
      (get_or (get_or game ''fixture'' JNull) ''timestamp'' (JInt 0)) = Inr s"
    by (auto simp add: renders_def kickoff_timestamp_def split: sum.splits)
  from bk obtain bks where it: "iter (get_or game ''bookmakers'' (JArr [])) = Inr bks"
    and bks: "list_all well_formed_bookmaker bks"
    by (cases "get_or game ''bookmakers'' (JArr [])") (simp_all add: iter_def)
  from for_bookmakers_returns [OF bks] show ?thesis
    by (simp add: analyze_game_def is_dict_get [OF g] is_dict_get [OF f] is_dict_get [OF lg]
        is_dict_get [OF tm] is_dict_get [OF hm] is_dict_get [OF aw] ebind_simps s it)
qed

lemma for_games_returns:
  assumes "list_all (well_formed_game tz) games"
  shows "\<exists>res. for_games tz games acc = Inr res"
  using assms
proof (induction games arbitrary: acc)
  case Nil
  show ?case by simp
next
  case (Cons game games)
  from Cons.prems have w: "well_formed_game tz game"
    and rest: "list_all (well_formed_game tz) games"
    by simp_all
  from analyze_game_returns [OF w, of acc] obtain mid where
    "analyze_game tz game acc = Inr mid"
    by blast
  with Cons.IH [OF rest, of mid] show ?case by (simp add: ebind_simps)
qed

lemma analyze_odds_returns:
  "well_formed tz odds_data \<Longrightarrow> \<exists>rows. analyze_odds tz odds_data = Inr rows"
  unfolding well_formed_def analyze_odds_def by (rule for_games_returns)

section \<open>The host's time zone\<close>

lemma ebind_cong: "(\<And>x. m = Inr x \<Longrightarrow> f x = g x) \<Longrightarrow> ebind m f = ebind m g"
  by (cases m) (simp_all add: ebind_def)

lemma analyze_game_time_zone:
  assumes "fromtimestamp_HM tz (kickoff_timestamp game)
      = fromtimestamp_HM tz' (kickoff_timestamp game)"
  shows "analyze_game tz game acc = analyze_game tz' game acc"
  unfolding analyze_game_def
proof (intro ebind_cong)
  fix fixture timestamp
  assume f: "get game ''fixture'' JNull = Inr fixture"
    and t: "get fixture ''timestamp'' (JInt 0) = Inr timestamp"
  from get_Inr [OF f] get_Inr [OF t] have "timestamp = kickoff_timestamp game"
    by (simp add: kickoff_timestamp_def)
  with assms have e: "fromtimestamp_HM tz timestamp = fromtimestamp_HM tz' timestamp"
    by simp
  fix league home_team away_team
  show "ebind (fromtimestamp_HM tz timestamp) (\<lambda>match_time.
      ebind (get game ''bookmakers'' (JArr [])) (\<lambda>bms.
      ebind (iter bms) (\<lambda>bookmakers.
        for_bookmakers league home_team away_team match_time bookmakers acc)))
    = ebind (fromtimestamp_HM tz' timestamp) (\<lambda>match_time.
      ebind (get game ''bookmakers'' (JArr [])) (\<lambda>bms.
      ebind (iter bms) (\<lambda>bookmakers.
        for_bookmakers league home_team away_team match_time bookmakers acc)))"
    unfolding e ..
qed

lemma for_games_time_zone:
  assumes "\<forall>game \<in> set games. fromtimestamp_HM tz (kickoff_timestamp game)
      = fromtimestamp_HM tz' (kickoff_timestamp game)"
  shows "for_games tz games acc = for_games tz' games acc"
  using assms
proof (induction games arbitrary: acc)
  case Nil
  show ?case by simp
next
  case (Cons game games)
  from Cons.prems have g: "fromtimestamp_HM tz (kickoff_timestamp game)
      = fromtimestamp_HM tz' (kickoff_timestamp game)"
    and rest: "\<forall>game \<in> set games. fromtimestamp_HM tz (kickoff_timestamp game)
      = fromtimestamp_HM tz' (kickoff_timestamp game)"
    by simp_all
  have "for_games tz games = for_games tz' games"
    by (rule ext) (rule Cons.IH [OF rest])
  then show ?case
    by (simp add: analyze_game_time_zone [OF g])
qed

section \<open>The normalizer on the concrete payloads\<close>

lemmas payload_defs =
  scenario_game_def duplicate_game_def over_under_game_def unnamed_bookmaker_game_def
  no_fixture_items_def no_timestamp_game_def sparse_game_def bookx_def match_winner_bets_def
  match_winner_bet_def home_quote_def draw_quote_def away_quote_def
  test_league_def test_teams_def

lemmas run_defs =
  analyze_odds_def analyze_game_def get_def getitem_def iter_def ebind_simps

lemma kickoff_utc: "fromtimestamp_HM tz_utc (JInt 1704123000) = Inr ''15:30''"
  by (simp add: fromtimestamp_HM_def in_year_range_def timestamp_seconds_def tz_utc_def ebind_simps
      strftime_HM_def two_digits_def digit_char_def)

lemma epoch_utc: "fromtimestamp_HM tz_utc (JInt 0) = Inr ''00:00''"
  by (simp add: fromtimestamp_HM_def in_year_range_def timestamp_seconds_def tz_utc_def ebind_simps
      strftime_HM_def two_digits_def digit_char_def)

lemma epoch_cet: "fromtimestamp_HM tz_cet (JInt 0) = Inr ''01:00''"
  by (simp add: fromtimestamp_HM_def in_year_range_def timestamp_seconds_def tz_cet_def ebind_simps
      strftime_HM_def two_digits_def digit_char_def)

lemma scenario_run:
  assumes "fromtimestamp_HM tz timestamp = Inr time"
  shows "analyze_odds tz [scenario_game timestamp] = Inr (scenario_rows time)"
  using assms by (simp add: run_defs payload_defs scenario_rows_def scenario_row_def)

lemma duplicate_run:
  "analyze_odds tz_utc [duplicate_game] = Inr (scenario_rows ''15:30'' @ scenario_rows ''15:30'')"
  by (simp add: run_defs payload_defs scenario_rows_def scenario_row_def kickoff_utc)

lemma over_under_run:
  "analyze_odds tz_utc [over_under_game] = Inr [over_under_row]"
  by (simp add: run_defs payload_defs over_under_row_def kickoff_utc)

lemma unnamed_bookmaker_run:
  "analyze_odds tz_utc [unnamed_bookmaker_game] = Inl KeyError"
  by (simp add: run_defs payload_defs kickoff_utc)

lemma sparse_run:
  "analyze_odds tz_utc [sparse_game] = Inr sparse_rows"
  by (simp add: run_defs payload_defs sparse_rows_def epoch_utc)

lemma no_timestamp_run:
  "analyze_odds tz_cet [no_timestamp_game] = Inr (scenario_rows ''01:00'')"
  by (simp add: run_defs payload_defs scenario_rows_def scenario_row_def epoch_cet)

section \<open>Claims about the odds normalizer\<close>

lemma included_row:
  "included q \<longleftrightarrow>
     (Mercado (row_of tz q) = JStr ''Match Winner'' \<or> Mercado (row_of tz q) = JStr ''Draw No Bet''
      \<or> Seleccion (row_of tz q) = JStr ''Draw'')"
  by (cases q) (simp add: included_def row_of_def)

lemma map_filter_concat:
  "map f (filter P xs) = concat (map (\<lambda>x. if P x then [f x] else []) xs)"
  by (induction xs) simp_all

lemma over_under_selections:
  "map included (selections [over_under_game]) = [False, True]"
  by (simp add: selections_def payload_defs elements_def iter_def get_or_def included_def
      market_name_of_def selection_of_def)

lemma no_fixture_selections:
  "selections [JObj no_fixture_items] =
     [(JObj no_fixture_items, bookx, match_winner_bet, home_quote),
      (JObj no_fixture_items, bookx, match_winner_bet, draw_quote),
      (JObj no_fixture_items, bookx, match_winner_bet, away_quote)]"
  by (simp add: selections_def payload_defs elements_def iter_def get_or_def)

lemma match_winner_included: "included (game, bookmaker, match_winner_bet, val)"
  by (simp add: included_def market_name_of_def match_winner_bet_def get_or_def)

lemma over_under_well_formed: "well_formed tz_utc [over_under_game]"
  by (simp add: well_formed_def well_formed_game_def well_formed_bookmaker_def
      well_formed_bet_def list_of_dicts_def is_dict_def renders_def kickoff_timestamp_def
      get_or_def payload_defs kickoff_utc)

text \<open>
  Claim C2, as the specification states it: for every sequence of raw odds records, a
  selection of the input yields an output row if and only if its market's name is exactly
  \<^verbatim>\<open>Match Winner\<close> or \<^verbatim>\<open>Draw No Bet\<close>, or its label is exactly \<^verbatim>\<open>Draw\<close>. The code yields rows
  only when the whole call returns: on a record without a fixture the \<^verbatim>\<open>Draw\<close> of a
  \<^verbatim>\<open>Match Winner\<close> market passes the test and yields no row, the call raises.
\<close>

theorem analyze_odds_filter_counterexample:
  "(JObj no_fixture_items, bookx, match_winner_bet, draw_quote)
      \<in> set (selections [JObj no_fixture_items]) \<and>
   included (JObj no_fixture_items, bookx, match_winner_bet, draw_quote) \<and>
   analyze_odds tz_utc [JObj no_fixture_items] = Inl AttributeError"
proof -
  have "map_of no_fixture_items ''fixture'' = None"
    by (simp add: no_fixture_items_def test_league_def test_teams_def)
  then have "analyze_game tz_utc (JObj no_fixture_items) [] = Inl AttributeError"
    by (rule analyze_game_no_fixture)
  then have "analyze_odds tz_utc [JObj no_fixture_items] = Inl AttributeError"
    unfolding analyze_odds_def by (rule for_games_first_error)
  then show ?thesis
    by (simp add: no_fixture_selections match_winner_included)
qed

text \<open>
  Claim C2, amended: \<open>analyze_odds\<close> returns on every sequence of well-formed records; and
  on every input on which it returns, a priced selection of the input (a selection of a
  market of a bookmaker of a record) yields an output row if and only if its market's
  name is exactly \<^verbatim>\<open>Match Winner\<close> or exactly \<^verbatim>\<open>Draw No Bet\<close>, or its label is exactly
  \<^verbatim>\<open>Draw\<close>: the output is one row for each such selection and none for any other, so no
  row violates the disjunction, and a \<^verbatim>\<open>Draw\<close> under any other market yields its one row.
\<close>

theorem analyze_odds_filter:
  "(well_formed tz odds_data \<longrightarrow> (\<exists>rows. analyze_odds tz odds_data = Inr rows)) \<and>
   (analyze_odds tz odds_data = Inr rows \<longrightarrow>
      rows = concat (map (\<lambda>q. if included q then [row_of tz q] else [])
                   (selections odds_data)) \<and>
      (\<forall>q \<in> set (selections odds_data). (row_of tz q \<in> set rows) = included q) \<and>
      (\<forall>r \<in> set rows. Mercado r = JStr ''Match Winner'' \<or> Mercado r = JStr ''Draw No Bet''
           \<or> Seleccion r = JStr ''Draw''))"
proof (intro conjI impI)
  assume "well_formed tz odds_data"
  then show "\<exists>rows. analyze_odds tz odds_data = Inr rows" by (rule analyze_odds_returns)
next
  assume run: "analyze_odds tz odds_data = Inr rows"
  note rows = analyze_odds_rows [OF run]
  show "rows = concat (map (\<lambda>q. if included q then [row_of tz q] else [])
      (selections odds_data))"
    unfolding rows by (rule map_filter_concat)
  show allowed: "\<forall>r \<in> set rows. Mercado r = JStr ''Match Winner''
      \<or> Mercado r = JStr ''Draw No Bet'' \<or> Seleccion r = JStr ''Draw''"
    unfolding rows using included_row [of _ tz] by auto
  show "\<forall>q \<in> set (selections odds_data). (row_of tz q \<in> set rows) = included q"
  proof
    fix q assume q: "q \<in> set (selections odds_data)"
    show "(row_of tz q \<in> set rows) = included q"
    proof
      assume "row_of tz q \<in> set rows"
      with allowed show "included q" using included_row [of q tz] by blast
    next
      assume "included q"
      with q show "row_of tz q \<in> set rows" unfolding rows by simp
    qed
  qed
qed

text \<open>
  A well-formed record with a market \<^verbatim>\<open>Over/Under\<close> and the selections \<^verbatim>\<open>Over 2.5\<close> and
  \<^verbatim>\<open>Draw\<close>: the first is left out, the second is the one output row.
\<close>

theorem analyze_odds_filter_witness:
  "well_formed tz_utc [over_under_game] \<and>
   analyze_odds tz_utc [over_under_game] = Inr [over_under_row] \<and>
   map included (selections [over_under_game]) = [False, True] \<and>
   [over_under_row] = concat (map (\<lambda>q. if included q then [row_of tz_utc q] else [])
                   (selections [over_under_game]))"
  using analyze_odds_filter [of tz_utc "[over_under_game]" "[over_under_row]"]
    over_under_well_formed over_under_run over_under_selections
  by blast

text \<open>
  Claim C7: the output rows are the rows of the included selections in input traversal
  order (records, then each record's bookmakers, then each bookmaker's markets, then each
  market's selections), as many as there are included selections: nothing is sorted and
  no duplicate is removed.
\<close>

theorem analyze_odds_traversal_order:
  assumes "analyze_odds tz odds_data = Inr rows"
  shows "rows = map (row_of tz) (filter included (selections odds_data)) \<and>
    length rows = length (filter included (selections odds_data))"
  using analyze_odds_rows [OF assms] by simp

text \<open>
  The same bookmaker block twice under one fixture: its three rows appear twice, in
  order.
\<close>

theorem analyze_odds_traversal_order_witness:
  "analyze_odds tz_utc [duplicate_game] = Inr (scenario_rows ''15:30'' @ scenario_rows ''15:30'') \<and>
   scenario_rows ''15:30'' @ scenario_rows ''15:30''
     = map (row_of tz_utc) (filter included (selections [duplicate_game])) \<and>
   length (scenario_rows ''15:30'' @ scenario_rows ''15:30'') = 6"
  using analyze_odds_traversal_order [OF duplicate_run] duplicate_run
  by (simp add: scenario_rows_def)

text \<open>
  Claim C6: for one fixture (league \<^verbatim>\<open>Test League\<close>, home \<^verbatim>\<open>A\<close>, away \<^verbatim>\<open>B\<close>, a kick-off
  timestamp that the host renders as 15:30) with one bookmaker \<^verbatim>\<open>BookX\<close> offering
  \<^verbatim>\<open>Match Winner\<close> with Home/1.5, Draw/3.2 and Away/2.1, the output is exactly three rows
  with these values, in input order.
\<close>

theorem analyze_odds_scenario:
  assumes "fromtimestamp_HM tz timestamp = Inr ''15:30''"
  shows "analyze_odds tz [scenario_game timestamp] =
    Inr [scenario_row ''15:30'' (JStr ''Home'') (JFloat 1.5),
         scenario_row ''15:30'' (JStr ''Draw'') (JFloat 3.2),
         scenario_row ''15:30'' (JStr ''Away'') (JFloat 2.1)]"
  using scenario_run [OF assms] by (simp add: scenario_rows_def)

text \<open>Under UTC the timestamp 1704123000 (2024-01-01 15:30:00) is such a kick-off.\<close>

theorem analyze_odds_scenario_witness:
  "fromtimestamp_HM tz_utc (JInt 1704123000) = Inr ''15:30'' \<and>
   analyze_odds tz_utc [scenario_game (JInt 1704123000)] =
    Inr [scenario_row ''15:30'' (JStr ''Home'') (JFloat 1.5),
         scenario_row ''15:30'' (JStr ''Draw'') (JFloat 3.2),
         scenario_row ''15:30'' (JStr ''Away'') (JFloat 2.1)]"
  using analyze_odds_scenario [OF kickoff_utc] kickoff_utc by blast

lemma kickoff_cet: "fromtimestamp_HM tz_cet (JInt 1704123000) = Inr ''16:30''"
  by (simp add: fromtimestamp_HM_def in_year_range_def timestamp_seconds_def tz_cet_def
      ebind_simps strftime_HM_def two_digits_def digit_char_def)

lemma kickoff_west: "fromtimestamp_HM tz_west (JInt 1704123000) = Inr ''15:30''"
  by (simp add: fromtimestamp_HM_def in_year_range_def timestamp_seconds_def tz_west_def
      ebind_simps strftime_HM_def two_digits_def digit_char_def)

lemma scenario_kickoff: "kickoff_timestamp (scenario_game timestamp) = timestamp"
  by (simp add: kickoff_timestamp_def scenario_game_def get_or_def)

text \<open>
  Claim C8, as the specification states it: \<open>analyze_odds\<close> is a function of its input
  alone, no hidden state influencing the result. The code renders kick-off times with
  \<^verbatim>\<open>datetime.fromtimestamp\<close>, in the local time zone of the host: the scenario's payload
  gives rows with 15:30 on a host on UTC and with 16:30 on a host one hour east.
\<close>

theorem analyze_odds_time_zone_counterexample:
  "analyze_odds tz_utc [scenario_game (JInt 1704123000)] = Inr (scenario_rows ''15:30'') \<and>
   analyze_odds tz_cet [scenario_game (JInt 1704123000)] = Inr (scenario_rows ''16:30'') \<and>
   scenario_rows ''15:30'' \<noteq> scenario_rows ''16:30''"
  using scenario_run [OF kickoff_utc] scenario_run [OF kickoff_cet]
  by (simp add: scenario_rows_def scenario_row_def)

text \<open>
  Claim C8, amended: the output of \<open>analyze_odds\<close> is determined by its input and the
  host's local time zone, and by the zone only through the kick-off times: two calls on
  the same raw odds sequence return the same rows, or raise the same exception, whenever
  the host renders the kick-off timestamp of every record of the input the same way in
  both, as it does when its time zone is the same.
\<close>

theorem analyze_odds_time_zone:
  assumes "\<forall>game \<in> set odds_data.
      fromtimestamp_HM tz (kickoff_timestamp game) = fromtimestamp_HM tz' (kickoff_timestamp game)"
  shows "analyze_odds tz odds_data = analyze_odds tz' odds_data"
  unfolding analyze_odds_def using assms by (rule for_games_time_zone)

text \<open>
  A zone that is on UTC on 2024-01-01 and one hour ahead in July gives the scenario's
  payload the rows it has under UTC.
\<close>

theorem analyze_odds_time_zone_witness:
  "fromtimestamp_HM tz_utc (JInt 1704123000) = fromtimestamp_HM tz_west (JInt 1704123000) \<and>
   tz_utc 1720000000 \<noteq> tz_west 1720000000 \<and>
   analyze_odds tz_utc [scenario_game (JInt 1704123000)]
     = analyze_odds tz_west [scenario_game (JInt 1704123000)]"
proof -
  have e: "fromtimestamp_HM tz_utc (JInt 1704123000) = fromtimestamp_HM tz_west (JInt 1704123000)"
    by (simp add: kickoff_utc kickoff_west)
  then have "\<forall>game \<in> set [scenario_game (JInt 1704123000)].
      fromtimestamp_HM tz_utc (kickoff_timestamp game)
        = fromtimestamp_HM tz_west (kickoff_timestamp game)"
    by (simp add: scenario_kickoff)
  from analyze_odds_time_zone [OF this] e show ?thesis
    by (simp add: tz_utc_def tz_west_def)
qed

text \<open>
  Claim C3 says that a record lacking its league, team, bookmaker, market, selection or
  odd field still yields its rows with placeholders. The code reads the bookmaker's name
  by \<^verbatim>\<open>bookmaker["name"]\<close>, not by \<^verbatim>\<open>get\<close> as it reads every other field: the scenario's
  payload without the bookmaker's name raises \<^verbatim>\<open>KeyError\<close>; a payload lacking each of the
  other fields yields its rows with the placeholders.
\<close>

theorem analyze_odds_unnamed_bookmaker:
  "analyze_odds tz_utc [unnamed_bookmaker_game] = Inl KeyError \<and>
   analyze_odds tz_utc [sparse_game] = Inr sparse_rows"
  using unnamed_bookmaker_run sparse_run by blast

lemma for_games_member_error:
  "game \<in> set games \<Longrightarrow> (\<And>acc. \<exists>e. analyze_game tz game acc = Inl e) \<Longrightarrow>
     \<exists>e. for_games tz games acc = Inl e"
proof (induction games arbitrary: acc)
  case Nil
  then show ?case by simp
next
  case (Cons g games)
  show ?case
  proof (cases "analyze_game tz g acc")
    case (Inl e)
    then show ?thesis by (simp add: ebind_simps)
  next
    case (Inr mid)
    with Cons.prems(2) [of acc] have "game \<noteq> g" by auto
    with Cons.prems(1) have "game \<in> set games" by simp
    from Cons.IH [OF this Cons.prems(2), of mid] Inr show ?thesis
      by (simp add: ebind_simps)
  qed
qed

text \<open>
  Claim C9: an input containing a record without the key \<^verbatim>\<open>fixture\<close> makes \<open>analyze_odds\<close>
  fail; when that record is the first one the failure is the \<^verbatim>\<open>AttributeError\<close> of
  \<^verbatim>\<open>None.get\<close>; and whenever \<open>analyze_odds\<close> returns, every record of the input maps
  \<^verbatim>\<open>fixture\<close> to a dict.
\<close>

theorem analyze_odds_missing_fixture:
  "(JObj kvs \<in> set odds_data \<and> map_of kvs ''fixture'' = None
      \<longrightarrow> (\<exists>e. analyze_odds tz odds_data = Inl e)) \<and>
   (map_of kvs ''fixture'' = None
      \<longrightarrow> analyze_odds tz (JObj kvs # rest) = Inl AttributeError) \<and>
   (analyze_odds tz odds_data = Inr rows
      \<longrightarrow> (\<forall>game \<in> set odds_data.
            \<exists>items fx. game = JObj items \<and> map_of items ''fixture'' = Some (JObj fx)))"
proof (intro conjI impI ballI)
  assume a: "JObj kvs \<in> set odds_data \<and> map_of kvs ''fixture'' = None"
  then have m: "JObj kvs \<in> set odds_data" and n: "map_of kvs ''fixture'' = None"
    by simp_all
  from m show "\<exists>e. analyze_odds tz odds_data = Inl e"
    unfolding analyze_odds_def
  proof (rule for_games_member_error)
    fix acc
    show "\<exists>e. analyze_game tz (JObj kvs) acc = Inl e"
      using analyze_game_no_fixture [OF n, of tz acc] by blast
  qed
next
  assume n: "map_of kvs ''fixture'' = None"
  show "analyze_odds tz (JObj kvs # rest) = Inl AttributeError"
    unfolding analyze_odds_def
    by (rule for_games_first_error) (rule analyze_game_no_fixture [OF n])
next
  fix game
  assume run: "analyze_odds tz odds_data = Inr rows" and g: "game \<in> set odds_data"
  from run g obtain acc res where "analyze_game tz game acc = Inr res"
    using for_games_Inr_all [of tz odds_data "[]" rows game] by (auto simp add: analyze_odds_def)
  then show "\<exists>items fx. game = JObj items \<and> map_of items ''fixture'' = Some (JObj fx)"
    by (rule analyze_game_fixture)
qed

lemma no_fixture_lookup: "map_of no_fixture_items ''fixture'' = None"
  by (simp add: no_fixture_items_def test_league_def test_teams_def)

text \<open>The scenario's record followed by one without a fixture.\<close>

theorem analyze_odds_missing_fixture_witness:
  "JObj no_fixture_items \<in> set [scenario_game (JInt 1704123000), JObj no_fixture_items] \<and>
   map_of no_fixture_items ''fixture'' = None \<and>
   (\<exists>e. analyze_odds tz_utc [scenario_game (JInt 1704123000), JObj no_fixture_items] = Inl e) \<and>
   analyze_odds tz_utc [JObj no_fixture_items] = Inl AttributeError"
proof -
  have m: "JObj no_fixture_items
      \<in> set [scenario_game (JInt 1704123000), JObj no_fixture_items]"
    by simp
  from analyze_odds_missing_fixture
    [of no_fixture_items "[scenario_game (JInt 1704123000), JObj no_fixture_items]" tz_utc "[]"]
    m no_fixture_lookup
  show ?thesis by blast
qed

lemma is_hour_minute_length: "is_hour_minute s \<Longrightarrow> length s = 5"
  by (auto simp add: is_hour_minute_def strftime_HM_def two_digits_def)

text \<open>
  Claim C10: whenever \<open>analyze_odds\<close> returns, every output row carries a well-formed
  hour:minute string, never the placeholder \<^verbatim>\<open>N/A\<close>; and every included selection of a
  record whose fixture dict lacks \<^verbatim>\<open>timestamp\<close> has its row in the output, with the time
  of the Unix epoch (timestamp 0) in the host's time zone.
\<close>

theorem analyze_odds_default_timestamp:
  assumes "analyze_odds tz odds_data = Inr rows"
  shows "(\<forall>r \<in> set rows. is_hour_minute (Hora r) \<and> Hora r \<noteq> ''N/A'') \<and>
    ((game, bookmaker, bet, val) \<in> set (selections odds_data) \<and>
      get_or game ''fixture'' JNull = JObj fx \<and> map_of fx ''timestamp'' = None \<and>
      included (game, bookmaker, bet, val) \<longrightarrow>
        row_of tz (game, bookmaker, bet, val) \<in> set rows \<and>
        Hora (row_of tz (game, bookmaker, bet, val))
          = strftime_HM ((tz 0 mod 86400) div 3600) ((tz 0 mod 3600) div 60))"
proof (intro conjI impI ballI)
  fix r assume r: "r \<in> set rows"
  have w: "is_hour_minute (Hora r)" by (rule analyze_odds_Hora [OF assms r])
  then show "is_hour_minute (Hora r)" .
  from is_hour_minute_length [OF w] show "Hora r \<noteq> ''N/A''" by auto
next
  assume a: "(game, bookmaker, bet, val) \<in> set (selections odds_data) \<and>
      get_or game ''fixture'' JNull = JObj fx \<and> map_of fx ''timestamp'' = None \<and>
      included (game, bookmaker, bet, val)"
  then have q: "(game, bookmaker, bet, val) \<in> set (selections odds_data)"
    and fx: "get_or game ''fixture'' JNull = JObj fx" "map_of fx ''timestamp'' = None"
    and inc: "included (game, bookmaker, bet, val)"
    by simp_all
  from q inc show "row_of tz (game, bookmaker, bet, val) \<in> set rows"
    unfolding analyze_odds_rows [OF assms] by simp
  from q have "game \<in> set odds_data" by (rule selections_game)
  from analyze_odds_time [OF assms this] fx
  have "fromtimestamp_HM tz (JInt 0) = Inr (match_time_of tz game)"
    by (simp add: get_or_def)
  from epoch_time [OF this]
  show "Hora (row_of tz (game, bookmaker, bet, val))
      = strftime_HM ((tz 0 mod 86400) div 3600) ((tz 0 mod 3600) div 60)"
    by (simp add: Hora_row_of)
qed

lemma no_timestamp_selections:
  "selections [no_timestamp_game] =
     [(no_timestamp_game, bookx, match_winner_bet, home_quote),
      (no_timestamp_game, bookx, match_winner_bet, draw_quote),
      (no_timestamp_game, bookx, match_winner_bet, away_quote)]"
  by (simp add: selections_def payload_defs elements_def iter_def get_or_def)

lemma draw_quote_included: "included (no_timestamp_game, bookx, match_winner_bet, draw_quote)"
  by (simp add: included_def market_name_of_def match_winner_bet_def get_or_def)

lemma no_timestamp_fixture:
  "get_or no_timestamp_game ''fixture'' JNull = JObj [(''id'', JInt 1)]"
  by (simp add: no_timestamp_game_def get_or_def)

text \<open>A fixture without a timestamp on a host one hour east of UTC: 01:00.\<close>

theorem analyze_odds_default_timestamp_witness:
  "analyze_odds tz_cet [no_timestamp_game] = Inr (scenario_rows ''01:00'') \<and>
   (no_timestamp_game, bookx, match_winner_bet, draw_quote)
      \<in> set (selections [no_timestamp_game]) \<and>
   get_or no_timestamp_game ''fixture'' JNull = JObj [(''id'', JInt 1)] \<and>
   map_of [(''id'', JInt 1)] ''timestamp'' = None \<and>
   included (no_timestamp_game, bookx, match_winner_bet, draw_quote) \<and>
   row_of tz_cet (no_timestamp_game, bookx, match_winner_bet, draw_quote)
      \<in> set (scenario_rows ''01:00'') \<and>
   Hora (row_of tz_cet (no_timestamp_game, bookx, match_winner_bet, draw_quote)) = ''01:00''"
proof -
  have q: "(no_timestamp_game, bookx, match_winner_bet, draw_quote)
      \<in> set (selections [no_timestamp_game])"
    by (simp add: no_timestamp_selections)
  have t: "map_of [(''id'', JInt 1)] ''timestamp'' = None" by simp
  have e: "strftime_HM ((tz_cet 0 mod 86400) div 3600) ((tz_cet 0 mod 3600) div 60) = ''01:00''"
    by (simp add: tz_cet_def strftime_HM_def two_digits_def digit_char_def)
  from analyze_odds_default_timestamp [OF no_timestamp_run, of no_timestamp_game bookx
      match_winner_bet draw_quote "[(''id'', JInt 1)]"]
    q no_timestamp_fixture t draw_quote_included
  have "row_of tz_cet (no_timestamp_game, bookx, match_winner_bet, draw_quote)
      \<in> set (scenario_rows ''01:00'') \<and>
   Hora (row_of tz_cet (no_timestamp_game, bookx, match_winner_bet, draw_quote)) = ''01:00''"
    unfolding e by blast
  with no_timestamp_run q no_timestamp_fixture t draw_quote_included show ?thesis by blast
qed

section \<open>Claims about the remote data fetcher\<close>

lemma get_matches_cases:
  "get_matches API_KEY requests_get now =
     ebind (requests_get (fixtures_url now) [(''x-apisports-key'', API_KEY)]) (\<lambda>response.
       if status_code response = 200
       then ebind (response_json response) (\<lambda>data. get data ''response'' (JArr []))
       else Inr (JArr []))"
  by (simp add: get_matches_def fixtures_url_def Let_def)

lemma get_odds_cases:
  "get_odds API_KEY requests_get now =
     ebind (requests_get (odds_url now) [(''x-apisports-key'', API_KEY)]) (\<lambda>response.
       if status_code response = 200
       then ebind (response_json response) (\<lambda>data. get data ''response'' (JArr []))
       else Inr (JArr []))"
  by (simp add: get_odds_def odds_url_def Let_def)

lemma no_container:
  "json_body response = Some (JObj kvs) \<Longrightarrow> map_of kvs ''response'' = None \<Longrightarrow>
     ebind (response_json response) (\<lambda>data. get data ''response'' (JArr [])) = Inr (JArr [])"
  by (simp add: response_json_def ebind_simps get_def)

text \<open>
  Claim C4, as the specification states it: any non-success status, network failure or
  missing container field makes \<^verbatim>\<open>get_matches\<close> and \<^verbatim>\<open>get_odds\<close> return an empty sequence,
  and no exception leaves them. Neither function catches anything: when the request
  fails, the exception of \<^verbatim>\<open>requests.get\<close> leaves the function.
\<close>

theorem fetchers_network_failure:
  "get_matches ''key'' network_down t_midnight = Inl RequestException \<and>
   get_odds ''key'' network_down t_midnight = Inl RequestException"
  by (simp add: get_matches_cases get_odds_cases network_down_def ebind_simps)

text \<open>
  Claim C4, amended: when the request returns a response, a status other than 200 gives
  the empty list, and so does a status 200 whose JSON body is an object without the key
  \<^verbatim>\<open>response\<close>; when the request raises, its exception leaves \<^verbatim>\<open>get_matches\<close> and
  \<^verbatim>\<open>get_odds\<close>.
\<close>

theorem fetchers_degrade:
  "(requests_get (fixtures_url now) [(''x-apisports-key'', API_KEY)] = Inr response \<and>
      status_code response \<noteq> 200
      \<longrightarrow> get_matches API_KEY requests_get now = Inr (JArr [])) \<and>
   (requests_get (fixtures_url now) [(''x-apisports-key'', API_KEY)] = Inr response \<and>
      status_code response = 200 \<and> json_body response = Some (JObj kvs) \<and>
      map_of kvs ''response'' = None
      \<longrightarrow> get_matches API_KEY requests_get now = Inr (JArr [])) \<and>
   (requests_get (fixtures_url now) [(''x-apisports-key'', API_KEY)] = Inl e
      \<longrightarrow> get_matches API_KEY requests_get now = Inl e) \<and>
   (requests_get (odds_url now) [(''x-apisports-key'', API_KEY)] = Inr response' \<and>
      status_code response' \<noteq> 200
      \<longrightarrow> get_odds API_KEY requests_get now = Inr (JArr [])) \<and>
   (requests_get (odds_url now) [(''x-apisports-key'', API_KEY)] = Inr response' \<and>
      status_code response' = 200 \<and> json_body response' = Some (JObj kvs') \<and>
      map_of kvs' ''response'' = None
      \<longrightarrow> get_odds API_KEY requests_get now = Inr (JArr [])) \<and>
   (requests_get (odds_url now) [(''x-apisports-key'', API_KEY)] = Inl e'
      \<longrightarrow> get_odds API_KEY requests_get now = Inl e')"
  by (auto simp add: get_matches_cases get_odds_cases ebind_simps no_container)

text \<open>A server answering 503, and one answering 200 with only an \<^verbatim>\<open>errors\<close> field.\<close>

theorem fetchers_degrade_witness:
  "get_matches ''key'' network_503 t_midnight = Inr (JArr []) \<and>
   get_odds ''key'' network_503 t_midnight = Inr (JArr []) \<and>
   get_matches ''key'' network_no_container t_midnight = Inr (JArr []) \<and>
   get_odds ''key'' network_no_container t_midnight = Inr (JArr [])"
proof -
  have a: "get_matches ''key'' network_503 t_midnight = Inr (JArr []) \<and>
      get_odds ''key'' network_503 t_midnight = Inr (JArr [])"
    using fetchers_degrade [of network_503 t_midnight "''key''"
        "\<lparr>status_code = 503, json_body = None\<rparr>" "[]" RequestException
        "\<lparr>status_code = 503, json_body = None\<rparr>" "[]" RequestException]
    by (simp add: network_503_def)
  have b: "get_matches ''key'' network_no_container t_midnight = Inr (JArr []) \<and>
      get_odds ''key'' network_no_container t_midnight = Inr (JArr [])"
    using fetchers_degrade [of network_no_container t_midnight "''key''"
        "\<lparr>status_code = 200, json_body = Some (JObj [(''errors'', JArr [])])\<rparr>"
        "[(''errors'', JArr [])]" RequestException
        "\<lparr>status_code = 200, json_body = Some (JObj [(''errors'', JArr [])])\<rparr>"
        "[(''errors'', JArr [])]" RequestException]
    by (simp add: network_no_container_def)
  from a b show ?thesis by blast
qed

end
